theory Spec2Isabelle
  imports Complex_Main
begin

section \<open>Python values the model needs\<close>

text \<open>
  Exceptions of the Python source are values: every function that can raise returns
  \<open>error + 'a\<close>, with \<open>Inl\<close> carrying the exception class.
\<close>

datatype error =
    ValueError
  | IndexError
  | AssertionError
  | AttributeError
  | UnboundLocalError
  | TypeError
  | ZeroDivisionError

text \<open>
  \<open>xs[i]\<close> on a Python list or on one axis of a numpy array: a negative index counts
  from the end, anything outside \<open>[-len, len)\<close> raises IndexError.
\<close>

definition py_index :: "'a list \<Rightarrow> int \<Rightarrow> error + 'a" where
  "py_index xs i =
     (if 0 \<le> i \<and> i < int (length xs) then Inr (xs ! nat i)
      else if - int (length xs) \<le> i \<and> i < 0 then Inr (xs ! nat (int (length xs) + i))
      else Inl IndexError)"

text \<open>A loop whose body may raise: the first exception ends it.\<close>

fun for_each :: "('a \<Rightarrow> 's \<Rightarrow> error + 's) \<Rightarrow> 'a list \<Rightarrow> 's \<Rightarrow> error + 's" where
  "for_each body [] s = Inr s"
| "for_each body (x # xs) s =
     (case body x s of Inl e \<Rightarrow> Inl e | Inr s' \<Rightarrow> for_each body xs s')"

section \<open>Network topology (envs/dao/network_config.py)\<close>

text \<open>
  Modelled from the spec: the enum NodeType (envs/dao/node_type.py is not among the
  sources). The spec gives its four members, START, EMPTY, SERVER and DATA; the grid stores
  their \<open>.value\<close> and the code only ever compares these values for equality, so the
  members are four distinct constants.
\<close>

datatype NodeType = START | EMPTY | SERVER | DATA

type_synonym pos = "int \<times> int"

record NetworkConfig =
  num_rows :: nat
  num_cols :: nat
  graph_layout :: "NodeType list list"
  adjacency_matrix :: "int list list"

text \<open>
  The row-major scan \<open>for i in range(num_rows): for j in range(num_cols)\<close> that every
  method below runs.
\<close>

definition grid_cells :: "nat \<Rightarrow> nat \<Rightarrow> (nat \<times> nat) list" where
  "grid_cells r c = concat (map (\<lambda>i. map (\<lambda>j. (i, j)) [0..<c]) [0..<r])"

definition cell_type :: "NodeType list list \<Rightarrow> nat \<times> nat \<Rightarrow> NodeType" where
  "cell_type g p = g ! fst p ! snd p"

text \<open>\<open>__default_graph_layout\<close>: the branch taken for cell \<open>(i, j)\<close>.\<close>

definition default_cell :: "nat \<Rightarrow> nat \<Rightarrow> nat \<Rightarrow> nat \<Rightarrow> NodeType" where
  "default_cell r c i j =
     (if int i = int r - 1 then (if j = c div 2 then START else EMPTY)
      else if i = 0 then (if j = c div 2 then DATA else EMPTY)
      else SERVER)"

definition default_graph_layout :: "nat \<Rightarrow> nat \<Rightarrow> NodeType list list" where
  "default_graph_layout r c = map (\<lambda>i. map (\<lambda>j. default_cell r c i j) [0..<c]) [0..<r]"

text \<open>
  \<open>start_pos\<close> and \<open>data_pos\<close>: the first cell of the scan holding the wanted type,
  AssertionError when the scan ends without one.
\<close>

fun find_cell :: "NodeType list list \<Rightarrow> NodeType \<Rightarrow> (nat \<times> nat) list \<Rightarrow> error + (nat \<times> nat)" where
  "find_cell g t [] = Inl AssertionError"
| "find_cell g t (p # ps) = (if cell_type g p = t then Inr p else find_cell g t ps)"

definition start_pos :: "nat \<Rightarrow> nat \<Rightarrow> NodeType list list \<Rightarrow> error + (nat \<times> nat)" where
  "start_pos r c g = find_cell g START (grid_cells r c)"

definition data_pos :: "nat \<Rightarrow> nat \<Rightarrow> NodeType list list \<Rightarrow> error + (nat \<times> nat)" where
  "data_pos r c g = find_cell g DATA (grid_cells r c)"

text \<open>\<open>adjacency_matrix[i][j] = 1; adjacency_matrix[j][i] = 1\<close>.\<close>

definition set_entry :: "int list list \<Rightarrow> nat \<Rightarrow> nat \<Rightarrow> int \<Rightarrow> int list list" where
  "set_entry m i j v = m[i := (m ! i)[j := v]]"

definition connect :: "nat \<Rightarrow> nat \<Rightarrow> int list list \<Rightarrow> int list list" where
  "connect i j m = set_entry (set_entry m i j 1) j i 1"

text \<open>
  One pass of the inner loop body of \<open>__default_adjacency_matrix\<close> for the index pair
  \<open>(i, j)\<close>. The properties \<open>data_row\<close>, \<open>data_col\<close>, \<open>start_row\<close> and
  \<open>start_col\<close> rescan the layout through \<open>data_pos\<close> and \<open>start_pos\<close> each time they
  are read, and raise when the scan fails; \<open>start_row - 1\<close> is integer subtraction.
\<close>

definition adjacency_body ::
  "nat \<Rightarrow> nat \<Rightarrow> NodeType list list \<Rightarrow> nat \<times> nat \<Rightarrow> int list list \<Rightarrow> error + int list list" where
  "adjacency_body r c g ij m =
     (let i = fst ij; j = snd ij;
          row_1 = i div c; col_1 = i mod c;
          row_2 = j div c; col_2 = j mod c
      in case data_pos r c g of
           Inl e \<Rightarrow> Inl e
         | Inr (data_row, data_col) \<Rightarrow>
             if row_1 = data_row then
               Inr (if row_2 = data_row + 1 \<and> col_1 = data_col then connect i j m else m)
             else
               (case start_pos r c g of
                  Inl e \<Rightarrow> Inl e
                | Inr (start_row, start_col) \<Rightarrow>
                    if row_1 = start_row then
                      Inr (if int row_2 = int start_row - 1 \<and> col_1 = start_col
                           then connect i j m else m)
                    else if row_2 = row_1 + 1 \<and> col_1 = col_2 \<and> row_1 \<noteq> start_row
                            \<and> row_2 \<noteq> start_row
                    then Inr (connect i j m)
                    else Inr m))"

definition default_adjacency_matrix ::
  "nat \<Rightarrow> nat \<Rightarrow> NodeType list list \<Rightarrow> error + int list list" where
  "default_adjacency_matrix r c g =
     for_each (adjacency_body r c g) (grid_cells (r * c) (r * c))
       (replicate (r * c) (replicate (c * r) 0))"

text \<open>
  The constructor. \<open>np.zeros\<close> refuses a negative dimension with ValueError; after that
  both dimensions are natural numbers.
\<close>

definition new_NetworkConfig :: "int \<Rightarrow> int \<Rightarrow> error + NetworkConfig" where
  "new_NetworkConfig rows cols =
     (if rows < 0 \<or> cols < 0 then Inl ValueError
      else let r = nat rows; c = nat cols; g = default_graph_layout r c
           in case default_adjacency_matrix r c g of
                Inl e \<Rightarrow> Inl e
              | Inr a \<Rightarrow> Inr \<lparr>num_rows = r, num_cols = c, graph_layout = g,
                                adjacency_matrix = a\<rparr>)"

text \<open>\<open>node_list\<close>: the types of the non-EMPTY cells in scan order; the index is the node id.\<close>

definition node_list :: "NetworkConfig \<Rightarrow> NodeType list" where
  "node_list nc =
     filter (\<lambda>t. t \<noteq> EMPTY)
       (map (cell_type (graph_layout nc)) (grid_cells (num_rows nc) (num_cols nc)))"

text \<open>
  \<open>get_node_pos\<close>: the running count is compared with \<open>node_id\<close> at every cell, before
  the cell's own type is looked at.
\<close>

fun get_node_pos_scan ::
  "NodeType list list \<Rightarrow> int \<Rightarrow> int \<Rightarrow> (nat \<times> nat) list \<Rightarrow> error + pos" where
  "get_node_pos_scan g node_id count [] = Inl ValueError"
| "get_node_pos_scan g node_id count (p # ps) =
     (if node_id = count then Inr (int (fst p), int (snd p))
      else get_node_pos_scan g node_id
             (if cell_type g p \<noteq> EMPTY then count + 1 else count) ps)"

definition get_node_pos :: "NetworkConfig \<Rightarrow> int \<Rightarrow> error + pos" where
  "get_node_pos nc node_id =
     get_node_pos_scan (graph_layout nc) node_id 0 (grid_cells (num_rows nc) (num_cols nc))"

text \<open>
  \<open>get_node_id\<close>: \<open>-1\<close> for an EMPTY cell, else the number of non-EMPTY cells scanned
  before it; ValueError when the position is not a cell of the grid.
\<close>

fun get_node_id_scan ::
  "NodeType list list \<Rightarrow> pos \<Rightarrow> int \<Rightarrow> (nat \<times> nat) list \<Rightarrow> error + int" where
  "get_node_id_scan g rc count [] = Inl ValueError"
| "get_node_id_scan g rc count (p # ps) =
     (if fst rc = int (fst p) \<and> snd rc = int (snd p) then
        (if cell_type g p = EMPTY then Inr (- 1) else Inr count)
      else get_node_id_scan g rc
             (if cell_type g p \<noteq> EMPTY then count + 1 else count) ps)"

definition get_node_id :: "NetworkConfig \<Rightarrow> pos \<Rightarrow> error + int" where
  "get_node_id nc rc =
     get_node_id_scan (graph_layout nc) rc 0 (grid_cells (num_rows nc) (num_cols nc))"

section \<open>Game configuration (envs/dao/game_config.py)\<close>

text \<open>
  The derived sizes of \<open>GameConfig.__init__\<close>. The fields that clash with those of the
  network configuration carry the prefix \<open>gc_\<close>. The initial \<open>GameState\<close>, the
  observation spaces and the manual-play flags are left out: no function below reads them.
\<close>

record GameConfig =
  num_layers :: int
  num_servers_per_layer :: int
  num_attack_types :: int
  max_value :: int
  gc_num_rows :: int
  num_nodes :: int
  gc_num_cols :: int
  num_attack_actions :: int
  num_defense_actions :: int
  num_states :: int
  network_config :: NetworkConfig

text \<open>
  The constructor with \<open>initial_state=None\<close>. Without a network configuration it builds
  the default one from the derived grid size; building the default initial state reads
  \<open>network_config.start_pos\<close>, which raises when the grid has no START cell.
\<close>

definition new_GameConfig ::
  "NetworkConfig option \<Rightarrow> int \<Rightarrow> int \<Rightarrow> int \<Rightarrow> int \<Rightarrow> error + GameConfig" where
  "new_GameConfig network_config_arg layers servers attack_types maxv =
     (let rows = layers + 2;
          nodes = layers * servers + 2;
          cols = servers
      in case (case network_config_arg of
                 None \<Rightarrow> new_NetworkConfig rows cols
               | Some nc \<Rightarrow> Inr nc) of
           Inl e \<Rightarrow> Inl e
         | Inr nc \<Rightarrow>
             (case start_pos (num_rows nc) (num_cols nc) (graph_layout nc) of
                Inl e \<Rightarrow> Inl e
              | Inr sp \<Rightarrow>
                  Inr \<lparr>num_layers = layers, num_servers_per_layer = servers,
                       num_attack_types = attack_types, max_value = maxv,
                       gc_num_rows = rows, num_nodes = nodes, gc_num_cols = cols,
                       num_attack_actions = attack_types * nodes,
                       num_defense_actions = (attack_types + 1) * nodes,
                       num_states = nodes, network_config = nc\<rparr>))"

section \<open>Action interpretation and legality (envs/util/idsgame_util.py)\<close>

text \<open>
  Python's \<open>//\<close> and \<open>%\<close> on integers round towards minus infinity, as \<open>div\<close> and
  \<open>mod\<close> on \<open>int\<close> do; a zero divisor raises.
\<close>

definition get_attack_defense_type :: "int \<Rightarrow> GameConfig \<Rightarrow> error + int" where
  "get_attack_defense_type action gc =
     (if num_attack_types gc = 0 then Inl ZeroDivisionError
      else Inr (action mod num_attack_types gc))"

definition interpret_action :: "int \<Rightarrow> GameConfig \<Rightarrow> error + (int \<times> pos \<times> int)" where
  "interpret_action action gc =
     (if num_attack_types gc = 0 then Inl ZeroDivisionError
      else let server_id = action div num_attack_types gc
           in case get_node_pos (network_config gc) server_id of
                Inl e \<Rightarrow> Inl e
              | Inr server_pos \<Rightarrow>
                  (case get_attack_defense_type action gc of
                     Inl e \<Rightarrow> Inl e
                   | Inr attack_defense_type \<Rightarrow>
                       Inr (server_id, server_pos, attack_defense_type)))"

definition get_action_id :: "int \<Rightarrow> int \<Rightarrow> GameConfig \<Rightarrow> int" where
  "get_action_id server_id attack_defense_type gc =
     server_id * num_attack_types gc + attack_defense_type"

definition is_defense_id_legal :: "int \<Rightarrow> GameConfig \<Rightarrow> error + bool" where
  "is_defense_id_legal defense_id gc =
     (case interpret_action defense_id gc of
        Inl e \<Rightarrow> Inl e
      | Inr (server_id, server_pos, attack_type) \<Rightarrow>
          (case py_index (node_list (network_config gc)) server_id of
             Inl e \<Rightarrow> Inl e
           | Inr t \<Rightarrow> Inr (t = SERVER \<or> t = DATA)))"

text \<open>
  The anti-cycling test of \<open>is_attack_legal\<close>, reached only with \<open>len(past_moves) >= 4\<close>:
  \<open>past_moves[-k]\<close> is then the k-th element from the end.
\<close>

definition from_end :: "'a list \<Rightarrow> nat \<Rightarrow> 'a" where
  "from_end xs k = xs ! (length xs - k)"

definition periodic_move :: "int \<Rightarrow> pos \<Rightarrow> pos \<Rightarrow> int list \<Rightarrow> bool" where
  "periodic_move target_node_id target_pos attacker_pos past_moves =
     (let middle_node = from_end past_moves 1
      in target_node_id = from_end past_moves 2 \<and> target_node_id \<noteq> middle_node
         \<and> middle_node = from_end past_moves 3
         \<and> target_node_id = from_end past_moves 4
         \<and> fst target_pos > fst attacker_pos)"

text \<open>
  \<open>is_attack_legal\<close>. The last line reads the adjacency matrix at the two cell indices
  \<open>row * num_cols + col\<close>, with numpy's index rules on both axes.
\<close>

definition adjacent :: "NetworkConfig \<Rightarrow> pos \<Rightarrow> pos \<Rightarrow> error + bool" where
  "adjacent nc attacker_pos target_pos =
     (let attacker_adjacency_matrix_id = fst attacker_pos * int (num_cols nc) + snd attacker_pos;
          target_adjacency_matrix_id = fst target_pos * int (num_cols nc) + snd target_pos
      in case py_index (adjacency_matrix nc) attacker_adjacency_matrix_id of
           Inl e \<Rightarrow> Inl e
         | Inr row \<Rightarrow>
             (case py_index row target_adjacency_matrix_id of
                Inl e \<Rightarrow> Inl e
              | Inr v \<Rightarrow> Inr (v = 1)))"

definition is_attack_legal ::
  "pos \<Rightarrow> pos \<Rightarrow> NetworkConfig \<Rightarrow> int list option \<Rightarrow> error + bool" where
  "is_attack_legal target_pos attacker_pos nc past_moves =
     (if target_pos = attacker_pos then Inr False
      else case get_node_id nc target_pos of
             Inl e \<Rightarrow> Inl e
           | Inr target_node_id \<Rightarrow>
               (case py_index (node_list nc) target_node_id of
                  Inl e \<Rightarrow> Inl e
                | Inr t \<Rightarrow>
                    if t = START then Inr False
                    else if (case past_moves of
                               None \<Rightarrow> False
                             | Some pm \<Rightarrow>
                                 length pm \<ge> 4
                                 \<and> periodic_move target_node_id target_pos attacker_pos pm)
                    then Inr False
                    else adjacent nc attacker_pos target_pos))"

definition is_attack_id_legal ::
  "int \<Rightarrow> GameConfig \<Rightarrow> pos \<Rightarrow> int list option \<Rightarrow> error + bool" where
  "is_attack_id_legal attack_id gc attacker_pos past_moves =
     (case interpret_action attack_id gc of
        Inl e \<Rightarrow> Inl e
      | Inr (server_id, server_pos, attack_type) \<Rightarrow>
          is_attack_legal server_pos attacker_pos (network_config gc) past_moves)"

section \<open>Opponent pools (agents/training_agents/openai_baselines/common/ppo/ppo.py)\<close>

text \<open>
  A pool is a Python list. With quality scoring an entry is the two-element list
  \<open>[model, score]\<close>; without it the model itself is appended, and the constructor also
  appends one bot wrapped in a one-element list. \<open>entry[1]\<close> raises TypeError on a bare
  model and IndexError on the one-element list.
\<close>

datatype ('p, 'q) pool_entry = Scored 'p 'q | Bare 'p | Wrapped 'p

definition entry_quality :: "('p, 'q) pool_entry \<Rightarrow> error + 'q" where
  "entry_quality x = (case x of Scored m q \<Rightarrow> Inr q | Bare m \<Rightarrow> Inl TypeError
                      | Wrapped m \<Rightarrow> Inl IndexError)"

text \<open>
  \<open>get_attacker_pool_quality_scores\<close> and \<open>get_defender_pool_quality_scores\<close>:
  \<open>list(map(lambda x: x[1], pool))\<close>, which stops at the first entry that has no score.
\<close>

fun get_pool_quality_scores :: "('p, 'q) pool_entry list \<Rightarrow> error + 'q list" where
  "get_pool_quality_scores [] = Inr []"
| "get_pool_quality_scores (x # xs) =
     (case entry_quality x of
        Inl e \<Rightarrow> Inl e
      | Inr q \<Rightarrow> (case get_pool_quality_scores xs of Inl e \<Rightarrow> Inl e | Inr qs \<Rightarrow> Inr (q # qs)))"

text \<open>Python's \<open>max\<close> of a list: ValueError on the empty list.\<close>

definition py_max :: "('q::linorder) list \<Rightarrow> error + 'q" where
  "py_max qs = (case qs of [] \<Rightarrow> Inl ValueError | q # rest \<Rightarrow> Inr (fold max rest q))"

text \<open>The fields of \<open>pg_agent_config\<close> and of its \<open>opponent_pool_config\<close> that the trainer reads.\<close>

record 'q OpponentPoolConfig =
  pool_maxsize :: int
  quality_scores :: bool
  initial_quality :: 'q
  quality_score_eta :: 'q

record 'q PolicyGradientAgentConfig =
  attacker :: bool
  defender :: bool
  alternating_optimization :: bool
  opponent_pool :: bool
  baselines_in_pool :: bool
  opponent_pool_config :: "'q OpponentPoolConfig option"

text \<open>
  What both branches of \<open>add_model_to_pool\<close> do to their own pool with the deep copy of
  their own policy: \<open>pop(0)\<close> when the pool has reached \<open>pool_maxsize\<close> (IndexError on an
  empty list), then the append, with the score \<open>initial_quality\<close> for an empty pool and the
  maximum of the scores in the pool otherwise. The result is the pool as the call leaves it
  and the exception it raised, if any: an exception after the \<open>pop\<close> leaves the pool
  shortened.
\<close>

definition pool_append ::
  "'q OpponentPoolConfig \<Rightarrow> 'p \<Rightarrow> ('p, 'q::linorder) pool_entry list
   \<Rightarrow> ('p, 'q) pool_entry list \<times> error option" where
  "pool_append opc model_copy pool =
     (if int (length pool) \<ge> pool_maxsize opc \<and> pool = [] then (pool, Some IndexError)
      else
        let pool1 = (if int (length pool) \<ge> pool_maxsize opc then tl pool else pool)
        in if quality_scores opc then
             (if length pool1 = 0 then
                (pool1 @ [Scored model_copy (initial_quality opc)], None)
              else
                (case get_pool_quality_scores pool1 of
                   Inl e \<Rightarrow> (pool1, Some e)
                 | Inr qualities \<Rightarrow>
                     (case py_max qualities of
                        Inl e \<Rightarrow> (pool1, Some e)
                      | Inr max_q \<Rightarrow> (pool1 @ [Scored model_copy max_q], None))))
           else (pool1 @ [Bare model_copy], None))"

text \<open>The trainer's two pools and the two policies being trained.\<close>

record ('p, 'q) Pools =
  attacker_policy :: 'p
  defender_policy :: 'p
  attacker_pool :: "('p, 'q) pool_entry list"
  defender_pool :: "('p, 'q) pool_entry list"

definition add_model_to_pool ::
  "'q PolicyGradientAgentConfig \<Rightarrow> bool \<Rightarrow> ('p, 'q::linorder) Pools
   \<Rightarrow> ('p, 'q) Pools \<times> error option" where
  "add_model_to_pool cfg for_attacker st =
     (case opponent_pool_config cfg of
        None \<Rightarrow> (st, None)
      | Some opc \<Rightarrow>
          if \<not> opponent_pool cfg then (st, None)
          else if for_attacker then
            (let (pool', err) = pool_append opc (attacker_policy st) (attacker_pool st)
             in (st\<lparr>attacker_pool := pool'\<rparr>, err))
          else
            (let (pool', err) = pool_append opc (defender_policy st) (defender_pool st)
             in (st\<lparr>defender_pool := pool'\<rparr>, err)))"

text \<open>
  The opponents a pool can hold: a frozen copy of a policy (numbered by the update it was
  copied at) or one of the four scripted bots.
\<close>

datatype opponent =
    PolicySnapshot nat
  | DefendMinimalValueBotAgent
  | RandomDefenseBotAgent
  | AttackMaximalValueBotAgent
  | RandomAttackBotAgent

text \<open>
  The pools as \<open>PPO.__init__\<close> seeds them and as \<open>_setup_model\<close> then adds the two
  first snapshots. Without an opponent pool the trainer has no pool attributes; the model
  keeps two empty lists.
\<close>

definition initial_pools ::
  "'q PolicyGradientAgentConfig \<Rightarrow> (opponent, 'q) Pools" where
  "initial_pools cfg =
     (let empty = \<lparr>attacker_policy = PolicySnapshot 0, defender_policy = PolicySnapshot 0,
                   attacker_pool = [], defender_pool = []\<rparr>
      in case opponent_pool_config cfg of
           None \<Rightarrow> empty
         | Some opc \<Rightarrow>
             if \<not> opponent_pool cfg then empty
             else if \<not> baselines_in_pool cfg then empty
             else if quality_scores opc then
               empty\<lparr>defender_pool :=
                        [Scored DefendMinimalValueBotAgent (initial_quality opc),
                         Scored RandomDefenseBotAgent (initial_quality opc)],
                      attacker_pool :=
                        [Scored AttackMaximalValueBotAgent (initial_quality opc),
                         Scored RandomAttackBotAgent (initial_quality opc)]\<rparr>
             else
               empty\<lparr>defender_pool :=
                        [Bare DefendMinimalValueBotAgent, Wrapped RandomDefenseBotAgent],
                      attacker_pool := [Bare RandomAttackBotAgent]\<rparr>)"

definition setup_pools ::
  "('q::linorder) PolicyGradientAgentConfig \<Rightarrow> (opponent, 'q) Pools \<times> error option" where
  "setup_pools cfg =
     (case add_model_to_pool cfg True (initial_pools cfg) of
        (st, Some e) \<Rightarrow> (st, Some e)
      | (st, None) \<Rightarrow> add_model_to_pool cfg False st)"

text \<open>
  Modelled from the spec: \<open>scipy.special.softmax\<close> and the float64 arithmetic of
  \<open>score - eta / (N * p)\<close> are not in the sources. They are parameters of
  \<open>update_quality_score\<close>: the softmax, the product of the pool size with a float, the
  quotient and the difference.
\<close>

record 'q FloatOps =
  softmax :: "'q list \<Rightarrow> 'q list"
  int_times :: "int \<Rightarrow> 'q \<Rightarrow> 'q"
  quotient :: "'q \<Rightarrow> 'q \<Rightarrow> 'q"
  difference :: "'q \<Rightarrow> 'q \<Rightarrow> 'q"

text \<open>
  What both branches of \<open>update_quality_score\<close> do to their pool, in the order Python
  evaluates it: the scores, the softmax, \<open>dist[opponent_idx]\<close>, the old score
  \<open>pool[opponent_idx][1]\<close>, the learning rate read from the pool configuration, the
  arithmetic, and the item assignment \<open>pool[opponent_idx][1] = v\<close>, which needs the
  two-element list form of the entry.
\<close>

definition set_entry_quality :: "('p, 'q) pool_entry \<Rightarrow> 'q \<Rightarrow> error + ('p, 'q) pool_entry" where
  "set_entry_quality x v = (case x of Scored m q \<Rightarrow> Inr (Scored m v) | Bare m \<Rightarrow> Inl TypeError
                            | Wrapped m \<Rightarrow> Inl IndexError)"

definition py_index_nat :: "'a list \<Rightarrow> int \<Rightarrow> nat" where
  "py_index_nat xs i = (if i < 0 then nat (int (length xs) + i) else nat i)"

definition pool_update_quality ::
  "'q FloatOps \<Rightarrow> 'q OpponentPoolConfig option \<Rightarrow> int \<Rightarrow> ('p, 'q) pool_entry list
   \<Rightarrow> error + ('p, 'q) pool_entry list" where
  "pool_update_quality ops opc_opt opponent_idx pool =
     (let N = int (length pool)
      in case get_pool_quality_scores pool of
           Inl e \<Rightarrow> Inl e
         | Inr qualities \<Rightarrow>
             (case py_index (softmax ops qualities) opponent_idx of
                Inl e \<Rightarrow> Inl e
              | Inr p \<Rightarrow>
                  (case py_index pool opponent_idx of
                     Inl e \<Rightarrow> Inl e
                   | Inr entry \<Rightarrow>
                       (case entry_quality entry of
                          Inl e \<Rightarrow> Inl e
                        | Inr q \<Rightarrow>
                            (case opc_opt of
                               None \<Rightarrow> Inl AttributeError
                             | Some opc \<Rightarrow>
                                 (case set_entry_quality entry
                                         (difference ops q
                                            (quotient ops (quality_score_eta opc)
                                               (int_times ops N p))) of
                                    Inl e \<Rightarrow> Inl e
                                  | Inr entry' \<Rightarrow>
                                      Inr (pool[py_index_nat pool opponent_idx := entry'])))))))"

definition update_quality_score ::
  "'q FloatOps \<Rightarrow> 'q PolicyGradientAgentConfig \<Rightarrow> int \<Rightarrow> bool \<Rightarrow> ('p, 'q) Pools
   \<Rightarrow> error + ('p, 'q) Pools" where
  "update_quality_score ops cfg opponent_idx for_attacker st =
     (if for_attacker then
        (case pool_update_quality ops (opponent_pool_config cfg) opponent_idx (attacker_pool st) of
           Inl e \<Rightarrow> Inl e
         | Inr pool' \<Rightarrow> Inr (st\<lparr>attacker_pool := pool'\<rparr>))
      else
        (case pool_update_quality ops (opponent_pool_config cfg) opponent_idx (defender_pool st) of
           Inl e \<Rightarrow> Inl e
         | Inr pool' \<Rightarrow> Inr (st\<lparr>defender_pool := pool'\<rparr>)))"

section \<open>Episode bookkeeping of the trainer (base_class.py, ppo.py)\<close>

text \<open>
  The counters \<open>BaseRLModel.__init__\<close> sets to zero, and the two hack probabilities. The
  probabilities are the quotients of two Python integers; they are kept here as the exact
  quotients (the float the code stores is the nearest double, which lies in the same
  interval \<open>[0, 1]\<close>, both ends being doubles).
\<close>

record TrainStats =
  num_train_games :: int
  num_train_hacks :: int
  num_train_games_total :: int
  num_train_hacks_total :: int
  train_hack_probability :: real
  train_cumulative_hack_probability :: real

definition initial_stats :: TrainStats where
  "initial_stats =
     \<lparr>num_train_games = 0, num_train_hacks = 0, num_train_games_total = 0,
      num_train_hacks_total = 0, train_hack_probability = 0,
      train_cumulative_hack_probability = 0\<rparr>"

text \<open>
  \<open>collect_rollouts\<close> at the end of an episode (\<open>if dones:\<close>): both games counters go up,
  and both hacks counters when the episode ended with a hack.
\<close>

definition record_episode :: "bool \<Rightarrow> TrainStats \<Rightarrow> TrainStats" where
  "record_episode prev_episode_hacked s =
     (let s1 = s\<lparr>num_train_games := num_train_games s + 1,
                  num_train_games_total := num_train_games_total s + 1\<rparr>
      in if prev_episode_hacked then
           s1\<lparr>num_train_hacks := num_train_hacks s1 + 1,
              num_train_hacks_total := num_train_hacks_total s1 + 1\<rparr>
         else s1)"

text \<open>
  The logging branch of \<open>learn\<close> (\<open>iteration % train_log_frequency == 0\<close>): the two
  probabilities are recomputed, then the window counters are set to zero; the two
  assignments \<open>num_train_games = 0; num_train_hacks = 0\<close> are one step here.
\<close>

definition log_training_window :: "TrainStats \<Rightarrow> TrainStats" where
  "log_training_window s =
     (let s1 = (if num_train_games s > 0 \<and> num_train_games_total s > 0 then
                  s\<lparr>train_hack_probability :=
                       real_of_int (num_train_hacks s) / real_of_int (num_train_games s),
                    train_cumulative_hack_probability :=
                       real_of_int (num_train_hacks_total s)
                       / real_of_int (num_train_games_total s)\<rparr>
                else
                  s\<lparr>train_hack_probability := 0, train_cumulative_hack_probability := 0\<rparr>)
      in s1\<lparr>num_train_games := 0, num_train_hacks := 0\<rparr>)"

text \<open>
  These two places are the only ones in the sources that write the counters, so a training
  run changes them by a sequence of the two events.
\<close>

datatype train_event = EpisodeDone bool | LogWindow

fun train_event_step :: "train_event \<Rightarrow> TrainStats \<Rightarrow> TrainStats" where
  "train_event_step (EpisodeDone hacked) s = record_episode hacked s"
| "train_event_step LogWindow s = log_training_window s"

definition run_training :: "train_event list \<Rightarrow> TrainStats" where
  "run_training events = fold train_event_step events initial_stats"

section \<open>Rollout collection (ppo.py, \<open>PPO.collect_rollouts\<close>)\<close>

text \<open>
  The model follows the control flow, the local variables and the two rollout buffers.
  The calls into the policies, the opponents, the environment, the buffers and the callback
  are taken to return; what the loop needs from them at step \<open>n\<close> is read from an
  \<open>EnvStep\<close>: the \<open>dones\<close> flag, whether the episode that ended was a hack, the answer of
  \<open>callback.on_step()\<close>, and whether the current defender opponent is a \<open>PPOPolicy\<close>.
  Observations, rewards, the opponent pools and the exploration noise are not carried, and
  the two assertions on the last observations are taken to hold.
\<close>

record EnvStep =
  dones :: bool
  prev_episode_hacked :: bool
  on_step :: bool
  defender_opponent_is_policy :: bool

text \<open>
  An actions variable is the Python list \<open>[0]\<close> it is initialised with in every pass, or a
  numpy array once a policy or an opponent has acted; only the array has \<open>reshape\<close>.
\<close>

datatype actions_value = PyList | NdArray

datatype action_space = Discrete | Box | OtherSpace

text \<open>
  The locals that outlive a pass of the loop: \<open>attacker_values\<close> and
  \<open>defender_values\<close> (with their log-probabilities, assigned in the same statement) and
  \<open>dones\<close> are unbound until their first assignment.
\<close>

record RolloutLocals =
  attacker_values_bound :: bool
  defender_values_bound :: bool
  dones_bound :: bool

record Trainer =
  train_attacker :: bool
  train_defender :: bool
  attacker_rollout_buffer :: "nat list"
  defender_rollout_buffer :: "nat list"
  num_timesteps :: int
  stats :: TrainStats

datatype rollout_result = Completed | Stopped | Raised error

text \<open>
  The action selection at the top of a pass (\<open>with th.no_grad():\<close>): the variables' kinds
  after it and which values are bound. The branch for the trained defender tests the kind
  of \<open>self.defender_opponent\<close>, as the source does.
\<close>

definition select_actions ::
  "'q PolicyGradientAgentConfig \<Rightarrow> EnvStep \<Rightarrow> RolloutLocals \<Rightarrow> Trainer
   \<Rightarrow> actions_value \<times> actions_value \<times> RolloutLocals" where
  "select_actions cfg o_step loc tr =
     (let pooled = alternating_optimization cfg \<and> opponent_pool cfg;
          attacker_actions = PyList;
          defender_actions = PyList;
          (attacker_actions, defender_actions, loc) =
            (if attacker cfg \<and> train_attacker tr then
               (NdArray,
                if pooled then NdArray else defender_actions,
                loc\<lparr>attacker_values_bound := True,
                    defender_values_bound :=
                      (if pooled \<and> defender_opponent_is_policy o_step then True
                       else defender_values_bound loc)\<rparr>)
             else (attacker_actions, defender_actions, loc))
      in if defender cfg \<and> train_defender tr then
           (if pooled then NdArray else attacker_actions,
            NdArray,
            loc\<lparr>defender_values_bound := True,
                attacker_values_bound :=
                  (if pooled \<and> defender_opponent_is_policy o_step then True
                   else attacker_values_bound loc)\<rparr>)
         else (attacker_actions, defender_actions, loc))"

text \<open>
  \<open>buffer.add(..., values, log_probs)\<close> for one side: under alternating optimisation with
  an opponent pool only for the side being trained, otherwise always; the arguments are
  evaluated first, and an unbound \<open>values\<close> raises.
\<close>

definition add_transition ::
  "'q PolicyGradientAgentConfig \<Rightarrow> bool \<Rightarrow> bool \<Rightarrow> nat \<Rightarrow> nat list \<Rightarrow> error + nat list" where
  "add_transition cfg trained values_bound n buffer =
     (if alternating_optimization cfg \<and> opponent_pool cfg then
        (if trained then
           (if values_bound then Inr (buffer @ [n]) else Inl UnboundLocalError)
         else Inr buffer)
      else (if values_bound then Inr (buffer @ [n]) else Inl UnboundLocalError))"

text \<open>
  One pass of the \<open>while\<close> loop at step \<open>n\<close>: \<open>None\<close> when the loop goes on, otherwise how
  \<open>collect_rollouts\<close> ends, with the trainer as that leaves it.
\<close>

definition rollout_pass ::
  "'q PolicyGradientAgentConfig \<Rightarrow> action_space \<Rightarrow> int \<Rightarrow> EnvStep \<Rightarrow> nat \<Rightarrow> RolloutLocals
   \<Rightarrow> Trainer \<Rightarrow> rollout_result option \<times> RolloutLocals \<times> Trainer" where
  "rollout_pass cfg space num_envs o_step n loc tr =
     (let (attacker_actions, defender_actions, loc1) = select_actions cfg o_step loc tr;
          loc2 = loc1\<lparr>dones_bound := True\<rparr>
      in if \<not> on_step o_step then (Some Stopped, loc2, tr)
         else
           let tr1 = tr\<lparr>num_timesteps := num_timesteps tr + num_envs\<rparr>
           in if space = Discrete \<and> attacker cfg \<and> attacker_actions = PyList then
                (Some (Raised AttributeError), loc2, tr1)
              else if space = Discrete \<and> defender cfg \<and> defender_actions = PyList then
                (Some (Raised AttributeError), loc2, tr1)
              else
                (case (if attacker cfg then
                         add_transition cfg (train_attacker tr1) (attacker_values_bound loc2) n
                           (attacker_rollout_buffer tr1)
                       else Inr (attacker_rollout_buffer tr1)) of
                   Inl e \<Rightarrow> (Some (Raised e), loc2, tr1)
                 | Inr a_buf \<Rightarrow>
                     let tr2 = tr1\<lparr>attacker_rollout_buffer := a_buf\<rparr>
                     in (case (if defender cfg then
                                 add_transition cfg (train_defender tr2)
                                   (defender_values_bound loc2) n (defender_rollout_buffer tr2)
                               else Inr (defender_rollout_buffer tr2)) of
                           Inl e \<Rightarrow> (Some (Raised e), loc2, tr2)
                         | Inr d_buf \<Rightarrow>
                             let tr3 = tr2\<lparr>defender_rollout_buffer := d_buf\<rparr>
                             in if dones o_step then
                                  (None, loc2,
                                   tr3\<lparr>stats :=
                                         record_episode (prev_episode_hacked o_step) (stats tr3)\<rparr>)
                                else (None, loc2, tr3))))"

text \<open>\<open>while n_steps < n_rollout_steps\<close>, with the environment given step by step.\<close>

function rollout_loop ::
  "'q PolicyGradientAgentConfig \<Rightarrow> action_space \<Rightarrow> int \<Rightarrow> (nat \<Rightarrow> EnvStep) \<Rightarrow> int \<Rightarrow> nat
   \<Rightarrow> RolloutLocals \<Rightarrow> Trainer \<Rightarrow> rollout_result option \<times> RolloutLocals \<times> Trainer" where
  "rollout_loop cfg space num_envs env n_rollout_steps n_steps loc tr =
     (if int n_steps < n_rollout_steps then
        (case rollout_pass cfg space num_envs (env n_steps) n_steps loc tr of
           (Some r, loc', tr') \<Rightarrow> (Some r, loc', tr')
         | (None, loc', tr') \<Rightarrow>
             rollout_loop cfg space num_envs env n_rollout_steps (Suc n_steps) loc' tr')
      else (None, loc, tr))"
  by pat_completeness auto
termination
  by (relation "measure (\<lambda>(cfg, space, num_envs, env, n_rollout_steps, n_steps, loc, tr).
        nat (n_rollout_steps - int n_steps))") auto

text \<open>
  \<open>collect_rollouts\<close>: the buffers of the configured sides are reset, the loop runs, and
  the returns are computed from the last values and \<open>dones\<close> of each configured side,
  which must be bound by then.
\<close>

definition collect_rollouts ::
  "'q PolicyGradientAgentConfig \<Rightarrow> action_space \<Rightarrow> int \<Rightarrow> (nat \<Rightarrow> EnvStep) \<Rightarrow> int \<Rightarrow> Trainer
   \<Rightarrow> rollout_result \<times> Trainer" where
  "collect_rollouts cfg space num_envs env n_rollout_steps tr =
     (let tr1 = (if attacker cfg then tr\<lparr>attacker_rollout_buffer := []\<rparr> else tr);
          tr2 = (if defender cfg then tr1\<lparr>defender_rollout_buffer := []\<rparr> else tr1);
          loc = \<lparr>attacker_values_bound = False, defender_values_bound = False,
                 dones_bound = False\<rparr>
      in case rollout_loop cfg space num_envs env n_rollout_steps 0 loc tr2 of
           (Some r, loc', tr') \<Rightarrow> (r, tr')
         | (None, loc', tr') \<Rightarrow>
             if attacker cfg \<and> \<not> (attacker_values_bound loc' \<and> dones_bound loc') then
               (Raised UnboundLocalError, tr')
             else if defender cfg \<and> \<not> (defender_values_bound loc' \<and> dones_bound loc') then
               (Raised UnboundLocalError, tr')
             else (Completed, tr'))"

text \<open>
  The end of an iteration of \<open>learn\<close> under alternating optimisation: once the period is
  over the trained side changes.
\<close>

definition switch_trained_side ::
  "'q PolicyGradientAgentConfig \<Rightarrow> int \<Rightarrow> int \<Rightarrow> Trainer \<Rightarrow> Trainer" where
  "switch_trained_side cfg optimization_iteration alternating_period tr =
     (if alternating_optimization cfg then
        (if train_attacker tr \<and> optimization_iteration > alternating_period then
           tr\<lparr>train_attacker := False, train_defender := True\<rparr>
         else if train_defender tr \<and> optimization_iteration > alternating_period then
           tr\<lparr>train_attacker := True, train_defender := False\<rparr>
         else tr)
      else tr)"

section \<open>Vocabulary of the properties\<close>

subsection \<open>Grids and games\<close>

text \<open>An \<open>n\<close> by \<open>n\<close> matrix, and one that equals its transpose.\<close>

definition square :: "nat \<Rightarrow> int list list \<Rightarrow> bool" where
  "square n m \<longleftrightarrow> length m = n \<and> (\<forall>row \<in> set m. length row = n)"

definition symmetric :: "nat \<Rightarrow> int list list \<Rightarrow> bool" where
  "symmetric n m \<longleftrightarrow> (\<forall>i<n. \<forall>j<n. m ! i ! j = m ! j ! i)"

text \<open>
  The topology of the default game (\<open>num_layers = 1\<close>, \<open>num_servers_per_layer = 2\<close>):
  three rows, two columns, the four nodes DATA, SERVER, SERVER, START.
\<close>

definition network_3x2 :: NetworkConfig where
  "network_3x2 =
     \<lparr>num_rows = 3, num_cols = 2,
      graph_layout = [[EMPTY, DATA], [SERVER, SERVER], [EMPTY, START]],
      adjacency_matrix =
        [[0, 0, 0, 0, 0, 0], [0, 0, 1, 1, 0, 0], [0, 1, 0, 0, 0, 1],
         [0, 1, 0, 0, 0, 1], [0, 0, 0, 0, 0, 0], [0, 0, 1, 1, 0, 0]]\<rparr>"

text \<open>The same with two server layers: six nodes, DATA is 0 and START is 5.\<close>

definition network_4x2 :: NetworkConfig where
  "network_4x2 =
     \<lparr>num_rows = 4, num_cols = 2,
      graph_layout = [[EMPTY, DATA], [SERVER, SERVER], [SERVER, SERVER], [EMPTY, START]],
      adjacency_matrix =
        [[0, 0, 0, 0, 0, 0, 0, 0], [0, 0, 1, 1, 0, 0, 0, 0],
         [0, 1, 0, 0, 1, 0, 0, 0], [0, 1, 0, 0, 0, 1, 0, 0],
         [0, 0, 1, 0, 0, 0, 0, 1], [0, 0, 0, 1, 0, 0, 0, 1],
         [0, 0, 0, 0, 0, 0, 0, 0], [0, 0, 0, 0, 1, 1, 0, 0]]\<rparr>"

text \<open>The default game: \<open>GameConfig()\<close> with ten attack types.\<close>

definition game_default :: GameConfig where
  "game_default =
     \<lparr>num_layers = 1, num_servers_per_layer = 2, num_attack_types = 10, max_value = 9,
      gc_num_rows = 3, num_nodes = 4, gc_num_cols = 2, num_attack_actions = 40,
      num_defense_actions = 44, num_states = 4, network_config = network_3x2\<rparr>"

text \<open>
  The anti-cycling rule in the spec's words. The last four recorded moves form a period-2
  back-and-forth pattern that the target continues: the target is the node visited two and
  four moves ago, the node in between is the same both times, and it is another node.
\<close>

definition back_and_forth :: "int \<Rightarrow> int list \<Rightarrow> bool" where
  "back_and_forth target past_moves =
     (case rev past_moves of
        m1 # m2 # m3 # m4 # _ \<Rightarrow> target = m2 \<and> target = m4 \<and> m1 = m3 \<and> target \<noteq> m1
      | _ \<Rightarrow> False)"

text \<open>
  The rule rejects a move whose target continues such a pattern and whose row number is
  strictly greater than the attacker's (the spec's "row-increase test").
\<close>

definition cycling_rejected :: "pos \<Rightarrow> pos \<Rightarrow> NetworkConfig \<Rightarrow> int list \<Rightarrow> bool" where
  "cycling_rejected target_pos attacker_pos nc past_moves =
     (case get_node_id nc target_pos of
        Inl e \<Rightarrow> False
      | Inr target_node_id \<Rightarrow>
          back_and_forth target_node_id past_moves \<and> fst target_pos > fst attacker_pos)"

text \<open>
  The rules that come before it let the move pass: the target is not the attacker's own
  position, it is a cell of the grid whose node type can be read, and that type is not
  START.
\<close>

definition passes_basic_rules :: "pos \<Rightarrow> pos \<Rightarrow> NetworkConfig \<Rightarrow> bool" where
  "passes_basic_rules target_pos attacker_pos nc =
     (target_pos \<noteq> attacker_pos
      \<and> (case get_node_id nc target_pos of
            Inl e \<Rightarrow> False
          | Inr target_node_id \<Rightarrow>
              (case py_index (node_list nc) target_node_id of
                 Inl e \<Rightarrow> False
               | Inr t \<Rightarrow> t \<noteq> START)))"

text \<open>The non-EMPTY cells in row \<open>i\<close> of the default layout.\<close>

definition row_nodes :: "nat \<Rightarrow> nat \<Rightarrow> nat \<Rightarrow> nat" where
  "row_nodes r c i =
     length (filter (\<lambda>p. cell_type (default_graph_layout r c) p \<noteq> EMPTY)
               (map (\<lambda>j. (i, j)) [0..<c]))"

subsection \<open>Pools\<close>

text \<open>The pool and the policy the call \<open>add_model_to_pool(attacker=a)\<close> works on.\<close>

definition pool_of :: "bool \<Rightarrow> ('p, 'q) Pools \<Rightarrow> ('p, 'q) pool_entry list" where
  "pool_of for_attacker st = (if for_attacker then attacker_pool st else defender_pool st)"

definition policy_of :: "bool \<Rightarrow> ('p, 'q) Pools \<Rightarrow> 'p" where
  "policy_of for_attacker st = (if for_attacker then attacker_policy st else defender_policy st)"

text \<open>An entry of the form \<open>[model, score]\<close>.\<close>

definition is_scored :: "('p, 'q) pool_entry \<Rightarrow> bool" where
  "is_scored x = (case x of Scored m q \<Rightarrow> True | _ \<Rightarrow> False)"

text \<open>
  The entries left after the eviction: all but the first when the pool has reached its
  capacity.
\<close>

definition after_eviction :: "int \<Rightarrow> 'a list \<Rightarrow> 'a list" where
  "after_eviction maxsize pool = (if int (length pool) \<ge> maxsize then tl pool else pool)"

text \<open>
  Pool configurations with quality scoring: capacity three without the scripted bots, and
  capacity one with them.
\<close>

definition pool_config_3 :: "real OpponentPoolConfig" where
  "pool_config_3 = \<lparr>pool_maxsize = 3, quality_scores = True, initial_quality = 1,
                     quality_score_eta = 1 / 100\<rparr>"

definition agent_config_3 :: "real PolicyGradientAgentConfig" where
  "agent_config_3 = \<lparr>attacker = True, defender = True, alternating_optimization = True,
                      opponent_pool = True, baselines_in_pool = False,
                      opponent_pool_config = Some pool_config_3\<rparr>"

definition pool_config_1 :: "real OpponentPoolConfig" where
  "pool_config_1 = \<lparr>pool_maxsize = 1, quality_scores = True, initial_quality = 1,
                     quality_score_eta = 1 / 100\<rparr>"

definition agent_config_1 :: "real PolicyGradientAgentConfig" where
  "agent_config_1 = \<lparr>attacker = True, defender = True, alternating_optimization = True,
                      opponent_pool = True, baselines_in_pool = True,
                      opponent_pool_config = Some pool_config_1\<rparr>"

text \<open>An attacker pool at capacity three, with the scores 5, 1 and 2.\<close>

definition pools_full :: "(opponent, real) Pools" where
  "pools_full =
     \<lparr>attacker_policy = PolicySnapshot 7, defender_policy = PolicySnapshot 7,
      attacker_pool = [Scored (PolicySnapshot 1) 5, Scored (PolicySnapshot 2) 1,
                       Scored (PolicySnapshot 3) 2],
      defender_pool = []\<rparr>"

text \<open>
  Exact real arithmetic in place of float64, with the softmax as the quotient of
  exponentials. It stands for the arithmetic only in statements that say so.
\<close>

definition exact_ops :: "real FloatOps" where
  "exact_ops =
     \<lparr>softmax = (\<lambda>xs. map (\<lambda>x. exp x / sum_list (map exp xs)) xs),
      int_times = (\<lambda>n p. real_of_int n * p),
      quotient = (\<lambda>a b. a / b),
      difference = (\<lambda>a b. a - b)\<rparr>"

text \<open>A defender pool of the two scripted bots, both with score 0.\<close>

definition pools_two :: "(opponent, real) Pools" where
  "pools_two =
     \<lparr>attacker_policy = PolicySnapshot 7, defender_policy = PolicySnapshot 7,
      attacker_pool = [],
      defender_pool = [Scored DefendMinimalValueBotAgent 0, Scored RandomDefenseBotAgent 0]\<rparr>"

text \<open>
  Modelled from the spec: float64 is not in the sources. Here it is rounding to nearest, ties
  to even, onto 53 significant bits, on the reals. The model covers finite values in the
  normal range only: no overflow to infinity, no subnormal numbers, no nan, and a quotient by
  zero is outside it. \<open>round_even\<close> is the nearest integer with ties to even, \<open>binade x\<close> the
  binary exponent of \<open>x\<close>, and \<open>round53 x\<close> the nearest multiple of the unit in the last place
  of that binade.
\<close>

definition round_even :: "real \<Rightarrow> int" where
  "round_even x =
     (let f = \<lfloor>x\<rfloor>; d = x - of_int f
      in if d < 1 / 2 then f else if 1 / 2 < d then f + 1
         else if even f then f else f + 1)"

definition binade :: "real \<Rightarrow> int" where
  "binade x = \<lfloor>log 2 \<bar>x\<bar>\<rfloor>"

definition round53 :: "real \<Rightarrow> real" where
  "round53 x =
     (if x = 0 then 0
      else let ulp = 2 powr (of_int (binade x) - 52)
           in of_int (round_even (x / ulp)) * ulp)"

text \<open>
  Modelled from the spec: \<open>scipy.special.softmax\<close> is not in the sources. It computes
  \<open>exp(x - max(x)) / sum(exp(x - max(x)))\<close>; every step is rounded, the exponential is taken
  as correctly rounded and the sum is taken from left to right. \<open>float64_ops\<close> is the
  arithmetic of \<open>score - eta / (N * p)\<close> with every operation rounded.
\<close>

definition float64_softmax :: "real list \<Rightarrow> real list" where
  "float64_softmax x =
     (if x = [] then []
      else let x_max = fold max (tl x) (hd x);
               exp_x_shifted = map (\<lambda>v. round53 (exp (round53 (v - x_max)))) x;
               total = fold (\<lambda>v acc. round53 (acc + v)) exp_x_shifted 0
           in map (\<lambda>v. round53 (v / total)) exp_x_shifted)"

definition float64_ops :: "real FloatOps" where
  "float64_ops =
     \<lparr>softmax = float64_softmax,
      int_times = (\<lambda>n p. round53 (of_int n * p)),
      quotient = (\<lambda>a b. round53 (a / b)),
      difference = (\<lambda>a b. round53 (a - b))\<rparr>"

text \<open>
  A pool configuration with the learning rate \<open>1 / 128\<close>, and a defender pool of the two
  scripted bots, both with the score \<open>10 ^ 17\<close>. Both numbers are float64 values.
\<close>

definition pool_config_eta :: "real OpponentPoolConfig" where
  "pool_config_eta = \<lparr>pool_maxsize = 3, quality_scores = True, initial_quality = 1,
                       quality_score_eta = 1 / 128\<rparr>"

definition agent_config_eta :: "real PolicyGradientAgentConfig" where
  "agent_config_eta = \<lparr>attacker = True, defender = True, alternating_optimization = True,
                        opponent_pool = True, baselines_in_pool = False,
                        opponent_pool_config = Some pool_config_eta\<rparr>"

definition pools_large :: "(opponent, real) Pools" where
  "pools_large =
     \<lparr>attacker_policy = PolicySnapshot 7, defender_policy = PolicySnapshot 7,
      attacker_pool = [],
      defender_pool = [Scored DefendMinimalValueBotAgent (10 ^ 17),
                       Scored RandomDefenseBotAgent (10 ^ 17)]\<rparr>"

subsection \<open>Training runs\<close>

text \<open>
  The bookkeeping invariant: in the window and in total there are no more hacks than games,
  and both hack probabilities lie between 0 and 1.
\<close>

definition stats_ok :: "TrainStats \<Rightarrow> bool" where
  "stats_ok s \<longleftrightarrow>
     0 \<le> num_train_hacks s \<and> num_train_hacks s \<le> num_train_games s
     \<and> 0 \<le> num_train_hacks_total s \<and> num_train_hacks_total s \<le> num_train_games_total s
     \<and> 0 \<le> train_hack_probability s \<and> train_hack_probability s \<le> 1
     \<and> 0 \<le> train_cumulative_hack_probability s \<and> train_cumulative_hack_probability s \<le> 1"

text \<open>
  Alternating optimisation without an opponent pool, both sides configured; the trainer as
  the constructor leaves it; an environment in which no episode ends and the callback never
  asks to stop.
\<close>

definition agent_config_no_pool :: "real PolicyGradientAgentConfig" where
  "agent_config_no_pool =
     \<lparr>attacker = True, defender = True, alternating_optimization = True,
      opponent_pool = False, baselines_in_pool = False, opponent_pool_config = None\<rparr>"

definition trainer_start :: Trainer where
  "trainer_start =
     \<lparr>train_attacker = True, train_defender = True, attacker_rollout_buffer = [],
      defender_rollout_buffer = [], num_timesteps = 0, stats = initial_stats\<rparr>"

definition env_quiet :: "nat \<Rightarrow> EnvStep" where
  "env_quiet n = \<lparr>dones = False, prev_episode_hacked = False, on_step = True,
                  defender_opponent_is_policy = False\<rparr>"

text \<open>
  Only the attacker is collected: it is configured and trained, and the defender is either
  not configured or, under alternating optimisation with an opponent pool, not trained.
\<close>

definition attacker_only_collected :: "'q PolicyGradientAgentConfig \<Rightarrow> Trainer \<Rightarrow> bool" where
  "attacker_only_collected cfg tr \<longleftrightarrow>
     attacker cfg \<and> train_attacker tr
     \<and> (\<not> defender cfg
         \<or> (alternating_optimization cfg \<and> opponent_pool cfg \<and> \<not> train_defender tr))"

text \<open>An environment like \<open>env_quiet\<close> in which the defender opponent is always a policy.\<close>

definition env_policy_opponent :: "nat \<Rightarrow> EnvStep" where
  "env_policy_opponent n = \<lparr>dones = False, prev_episode_hacked = False, on_step = True,
                            defender_opponent_is_policy = True\<rparr>"

section \<open>Loops and grids\<close>

lemma for_each_invariant:
  assumes "for_each body xs s = Inr s'" and "P s"
    and "\<And>x t t'. x \<in> set xs \<Longrightarrow> P t \<Longrightarrow> body x t = Inr t' \<Longrightarrow> P t'"
  shows "P s'"
  using assms
proof (induction xs arbitrary: s)
  case Nil
  then show ?case by simp
next
  case (Cons x xs)
  from Cons.prems(1) obtain t where bt: "body x s = Inr t" and rest: "for_each body xs t = Inr s'"
    by (auto split: sum.splits)
  have pt: "P t" using Cons.prems(3) [of x s t] Cons.prems(2) bt by simp
  have step: "P u'" if "y \<in> set xs" "P u" "body y u = Inr u'" for y u u'
    by (rule Cons.prems(3) [of y u u']) (use that in simp_all)
  show ?case by (rule Cons.IH [OF rest pt step])
qed

lemma in_grid_cells: "p \<in> set (grid_cells r c) \<longleftrightarrow> fst p < r \<and> snd p < c"
  by (cases p) (force simp: grid_cells_def)

lemma new_NetworkConfig_3x2: "new_NetworkConfig 3 2 = Inr network_3x2"
  by code_simp

lemma node_list_3x2: "node_list network_3x2 = [DATA, SERVER, SERVER, START]"
  by code_simp

section \<open>The adjacency matrix\<close>

lemma square_set_entry: "square n m \<Longrightarrow> i < n \<Longrightarrow> square n (set_entry m i j v)"
  by (auto simp: square_def set_entry_def dest!: set_update_subset_insert [THEN subsetD])

lemma set_entry_nth:
  "square n m \<Longrightarrow> i < n \<Longrightarrow> j < n \<Longrightarrow> a < n \<Longrightarrow> b < n \<Longrightarrow>
   set_entry m i j v ! a ! b = (if a = i \<and> b = j then v else m ! a ! b)"
  by (auto simp: square_def set_entry_def nth_list_update)

lemma square_connect: "square n m \<Longrightarrow> i < n \<Longrightarrow> j < n \<Longrightarrow> square n (connect i j m)"
  by (simp add: connect_def square_set_entry)

lemma connect_nth:
  assumes "square n m" "i < n" "j < n" "a < n" "b < n"
  shows "connect i j m ! a ! b = (if (a = i \<and> b = j) \<or> (a = j \<and> b = i) then 1 else m ! a ! b)"
proof -
  have sq: "square n (set_entry m i j 1)" using assms(1,2) by (rule square_set_entry)
  have e1: "connect i j m ! a ! b = (if a = j \<and> b = i then 1 else set_entry m i j 1 ! a ! b)"
    unfolding connect_def by (rule set_entry_nth [OF sq assms(3) assms(2) assms(4) assms(5)])
  have e2: "set_entry m i j 1 ! a ! b = (if a = i \<and> b = j then 1 else m ! a ! b)"
    by (rule set_entry_nth [OF assms])
  show ?thesis by (simp only: e1 e2 split: if_splits) blast
qed

lemma symmetric_connect:
  assumes "square n m" "symmetric n m" "i < n" "j < n"
  shows "symmetric n (connect i j m)"
  unfolding symmetric_def
proof (intro allI impI)
  fix a b assume "a < n" "b < n"
  then show "connect i j m ! a ! b = connect i j m ! b ! a"
    using assms(2) connect_nth [OF assms(1,3,4), of a b] connect_nth [OF assms(1,3,4), of b a]
    by (auto simp: symmetric_def)
qed

lemma adjacency_body_keeps:
  assumes "adjacency_body r c g ij m = Inr m'" "fst ij < n" "snd ij < n"
    "square n m \<and> symmetric n m"
  shows "square n m' \<and> symmetric n m'"
  using assms
  by (auto simp: adjacency_body_def Let_def square_connect symmetric_connect
      split: sum.splits prod.splits if_splits)

lemma default_adjacency_matrix_symmetric:
  assumes "default_adjacency_matrix r c g = Inr a"
  shows "square (r * c) a \<and> symmetric (r * c) a"
proof -
  have init: "square (r * c) (replicate (r * c) (replicate (c * r) 0))
      \<and> symmetric (r * c) (replicate (r * c) (replicate (c * r) 0))"
    by (simp add: square_def symmetric_def mult.commute)
  have step: "\<And>x t t'. x \<in> set (grid_cells (r * c) (r * c)) \<Longrightarrow>
      square (r * c) t \<and> symmetric (r * c) t \<Longrightarrow> adjacency_body r c g x t = Inr t' \<Longrightarrow>
      square (r * c) t' \<and> symmetric (r * c) t'"
    using adjacency_body_keeps by (simp add: in_grid_cells)
  show ?thesis
    using assms unfolding default_adjacency_matrix_def
    by (rule for_each_invariant
        [where P = "\<lambda>m. square (r * c) m \<and> symmetric (r * c) m", OF _ init step])
qed

text \<open>
  Claim C9. The adjacency matrix a NetworkConfig is constructed with is symmetric: whenever
  the constructor returns, every pair of indices \<open>i, j\<close> below \<open>num_rows * num_cols\<close>
  reads the same entry at \<open>[i][j]\<close> and at \<open>[j][i]\<close>.
\<close>

theorem adjacency_matrix_symmetric:
  assumes "new_NetworkConfig rows cols = Inr nc"
    and "i < num_rows nc * num_cols nc" and "j < num_rows nc * num_cols nc"
  shows "adjacency_matrix nc ! i ! j = adjacency_matrix nc ! j ! i"
proof -
  from assms(1) have "default_adjacency_matrix (num_rows nc) (num_cols nc) (graph_layout nc)
      = Inr (adjacency_matrix nc)"
    by (auto simp: new_NetworkConfig_def Let_def split: if_splits sum.splits)
  then have "symmetric (num_rows nc * num_cols nc) (adjacency_matrix nc)"
    using default_adjacency_matrix_symmetric by blast
  then show ?thesis using assms(2,3) by (simp add: symmetric_def)
qed

theorem adjacency_matrix_symmetric_witness:
  "new_NetworkConfig 3 2 = Inr network_3x2
   \<and> adjacency_matrix network_3x2 ! 1 ! 3 = 1 \<and> adjacency_matrix network_3x2 ! 3 ! 1 = 1"
proof -
  have a: "(1::nat) < num_rows network_3x2 * num_cols network_3x2" by (simp add: network_3x2_def)
  have b: "(3::nat) < num_rows network_3x2 * num_cols network_3x2" by (simp add: network_3x2_def)
  have "adjacency_matrix network_3x2 ! 1 ! 3 = adjacency_matrix network_3x2 ! 3 ! 1"
    by (rule adjacency_matrix_symmetric [OF new_NetworkConfig_3x2 a b])
  moreover have "adjacency_matrix network_3x2 ! 1 ! 3 = 1" by (simp add: network_3x2_def)
  ultimately show ?thesis using new_NetworkConfig_3x2 by simp
qed

section \<open>Node ids and positions\<close>

text \<open>
  Claim C1. The round trip \<open>get_node_id(get_node_pos(n)) == n\<close> does not hold in the code.
  On the default three by two grid the node ids are 0 to 3, and \<open>get_node_pos\<close> answers
  id 0 with the EMPTY cell \<open>(0, 0)\<close> and id 3 with the EMPTY cell \<open>(2, 0)\<close>, for both
  of which \<open>get_node_id\<close> returns \<open>-1\<close>: the scan compares the count with the id before
  it has looked at the type of the cell it is standing on.
\<close>

theorem get_node_pos_answers_empty_cell:
  "length (node_list network_3x2) = 4
   \<and> get_node_pos network_3x2 0 = Inr (0, 0) \<and> get_node_id network_3x2 (0, 0) = Inr (- 1)
   \<and> get_node_pos network_3x2 3 = Inr (2, 0) \<and> get_node_id network_3x2 (2, 0) = Inr (- 1)"
  by code_simp

lemma new_NetworkConfig_4x2: "new_NetworkConfig 4 2 = Inr network_4x2"
  by code_simp

lemma node_list_4x2: "node_list network_4x2 = [DATA, SERVER, SERVER, SERVER, SERVER, START]"
  by code_simp

lemma new_GameConfig_default: "new_GameConfig None 1 2 10 9 = Inr game_default"
  by code_simp

lemma get_node_pos_scan_returns:
  "count \<le> node_id \<Longrightarrow>
   node_id < count + int (length (filter (\<lambda>p. cell_type g p \<noteq> EMPTY) ps)) \<Longrightarrow>
   \<exists>p. get_node_pos_scan g node_id count ps = Inr p"
proof (induction ps arbitrary: count)
  case Nil
  then show ?case by simp
next
  case (Cons q qs)
  show ?case
  proof (cases "node_id = count")
    case True
    then show ?thesis by simp
  next
    case False
    then show ?thesis using Cons.prems Cons.IH [of "if cell_type g q \<noteq> EMPTY then count + 1 else count"]
      by (auto split: if_splits)
  qed
qed

lemma length_node_list:
  "length (node_list nc)
   = length (filter (\<lambda>p. cell_type (graph_layout nc) p \<noteq> EMPTY)
       (grid_cells (num_rows nc) (num_cols nc)))"
  by (simp add: node_list_def filter_map comp_def)

lemma get_node_pos_returns:
  assumes "0 \<le> n" "n < int (length (node_list nc))"
  shows "\<exists>p. get_node_pos nc n = Inr p"
  unfolding get_node_pos_def
  by (rule get_node_pos_scan_returns) (use assms in \<open>simp_all add: length_node_list\<close>)

lemma get_node_id_scan_node:
  assumes "p \<in> set ps" "cell_type g p \<noteq> EMPTY"
  shows "\<exists>k. get_node_id_scan g (int (fst p), int (snd p)) count ps = Inr (count + int k)
          \<and> k < length (filter (\<lambda>t. t \<noteq> EMPTY) (map (cell_type g) ps))
          \<and> filter (\<lambda>t. t \<noteq> EMPTY) (map (cell_type g) ps) ! k = cell_type g p"
  using assms
proof (induction ps arbitrary: count)
  case Nil
  then show ?case by simp
next
  case (Cons q qs)
  show ?case
  proof (cases "q = p")
    case True
    then show ?thesis using Cons.prems by (intro exI [of _ 0]) simp
  next
    case False
    then have ne: "\<not> (int (fst p) = int (fst q) \<and> int (snd p) = int (snd q))"
      by (auto simp: prod_eq_iff)
    from False Cons.prems have "p \<in> set qs" by simp
    from Cons.IH [OF this Cons.prems(2), of "if cell_type g q \<noteq> EMPTY then count + 1 else count"]
    obtain k where k: "get_node_id_scan g (int (fst p), int (snd p))
          (if cell_type g q \<noteq> EMPTY then count + 1 else count) qs
          = Inr ((if cell_type g q \<noteq> EMPTY then count + 1 else count) + int k)"
      "k < length (filter (\<lambda>t. t \<noteq> EMPTY) (map (cell_type g) qs))"
      "filter (\<lambda>t. t \<noteq> EMPTY) (map (cell_type g) qs) ! k = cell_type g p"
      by blast
    show ?thesis
    proof (cases "cell_type g q \<noteq> EMPTY")
      case True
      then show ?thesis using k ne by (intro exI [of _ "Suc k"]) auto
    next
      case False
      then show ?thesis using k ne by (intro exI [of _ k]) auto
    qed
  qed
qed

lemma start_cell_node:
  assumes "i < num_rows nc" "j < num_cols nc" "cell_type (graph_layout nc) (i, j) = START"
  shows "\<exists>tid. get_node_id nc (int i, int j) = Inr tid \<and> py_index (node_list nc) tid = Inr START"
proof -
  have "(i, j) \<in> set (grid_cells (num_rows nc) (num_cols nc))"
    using assms(1,2) by (simp add: in_grid_cells)
  from get_node_id_scan_node [OF this, of "graph_layout nc" 0] assms(3)
  obtain k where "get_node_id nc (int i, int j) = Inr (int k)"
    "k < length (node_list nc)" "node_list nc ! k = START"
    by (auto simp: get_node_id_def node_list_def)
  then show ?thesis by (auto simp: py_index_def)
qed

section \<open>Encoding and decoding actions\<close>

text \<open>
  Claim C7. For every node id \<open>n\<close> of the topology (an index of \<open>node_list\<close>, whose
  length is the number of non-EMPTY cells) and every type \<open>t\<close> below \<open>num_attack_types\<close>,
  \<open>get_node_pos(n)\<close> returns a position \<open>p\<close> and
  \<open>interpret_action(get_action_id(n, t))\<close> returns \<open>(n, p, t)\<close>.
\<close>

theorem interpret_action_get_action_id:
  assumes "0 \<le> n" and "n < int (length (node_list (network_config gc)))"
    and "0 \<le> t" and "t < num_attack_types gc"
  shows "\<exists>p. get_node_pos (network_config gc) n = Inr p
           \<and> interpret_action (get_action_id n t gc) gc = Inr (n, p, t)"
proof -
  obtain p where p: "get_node_pos (network_config gc) n = Inr p"
    using get_node_pos_returns [OF assms(1,2)] by blast
  have pos: "0 < num_attack_types gc" using assms(3,4) by simp
  have d: "(n * num_attack_types gc + t) div num_attack_types gc = n"
    using assms(3,4) pos by simp
  have m: "(n * num_attack_types gc + t) mod num_attack_types gc = t"
    using assms(3,4) pos by simp
  show ?thesis
    using p pos d m
    by (simp add: interpret_action_def get_action_id_def get_attack_defense_type_def)
qed

text \<open>
  The scenario of the claim: ten attack types on the four-node topology, where action id 23
  is node 2 with type 3 and \<open>get_action_id(2, 3)\<close> is 23.
\<close>

theorem interpret_action_get_action_id_witness:
  "new_GameConfig None 1 2 10 9 = Inr game_default
   \<and> length (node_list (network_config game_default)) = 4
   \<and> num_attack_types game_default = 10
   \<and> get_action_id 2 3 game_default = 23
   \<and> get_node_pos (network_config game_default) 2 = Inr (1, 1)
   \<and> interpret_action 23 game_default = Inr (2, (1, 1), 3)"
proof -
  have nl: "node_list (network_config game_default) = [DATA, SERVER, SERVER, START]"
    by (simp add: game_default_def node_list_3x2)
  have a: "(2::int) < int (length (node_list (network_config game_default)))"
    by (simp add: nl)
  have b: "(3::int) < num_attack_types game_default" by (simp add: game_default_def)
  have gp: "get_node_pos (network_config game_default) 2 = Inr (1, 1)" by code_simp
  have ga: "get_action_id 2 3 game_default = 23" by (simp add: get_action_id_def game_default_def)
  from interpret_action_get_action_id [of 2 game_default 3, OF _ a _ b]
  have "interpret_action 23 game_default = Inr (2, (1, 1), 3)"
    by (simp add: gp ga)
  then show ?thesis using new_GameConfig_default nl gp ga by (simp add: game_default_def)
qed

section \<open>Attack legality\<close>

lemma from_end_rev: "0 < k \<Longrightarrow> k \<le> length xs \<Longrightarrow> from_end xs k = rev xs ! (k - 1)"
  by (simp add: from_end_def rev_nth)

lemma periodic_move_back_and_forth:
  assumes "4 \<le> length pm"
  shows "periodic_move tid tp ap pm \<longleftrightarrow> back_and_forth tid pm \<and> fst tp > fst ap"
proof -
  obtain m1 m2 m3 m4 rest where r: "rev pm = m1 # m2 # m3 # m4 # rest"
  proof -
    define xs where "xs = rev pm"
    have "Suc (Suc (Suc (Suc 0))) \<le> length xs" using assms by (simp add: xs_def)
    then obtain a b c d r where "xs = a # b # c # d # r"
      by (auto simp: Suc_le_length_iff)
    then show ?thesis using that by (simp add: xs_def)
  qed
  have "from_end pm 1 = m1" "from_end pm 2 = m2" "from_end pm 3 = m3" "from_end pm 4 = m4"
    using assms r by (simp_all add: from_end_rev)
  then show ?thesis by (auto simp: periodic_move_def back_and_forth_def r Let_def)
qed

text \<open>
  Claim C3. With no history, or fewer than four recorded moves, \<open>is_attack_legal\<close> returns
  what it returns without a history: the self-target, START-node and adjacency rules decide
  alone. With four or more recorded moves it returns False exactly for the moves that pass
  the rules before the anti-cycling test and that the anti-cycling rule rejects (the last
  four moves are a period-2 pattern the target continues, and the target's row number is
  strictly greater than the attacker's); every other move gets the answer it gets without
  a history.
\<close>

theorem anti_cycling_rule:
  "(past_moves = None \<or> (\<exists>pm. past_moves = Some pm \<and> length pm < 4) \<longrightarrow>
      is_attack_legal target_pos attacker_pos nc past_moves
      = is_attack_legal target_pos attacker_pos nc None)
   \<and> (\<forall>pm. past_moves = Some pm \<and> 4 \<le> length pm \<longrightarrow>
      is_attack_legal target_pos attacker_pos nc past_moves
      = (if passes_basic_rules target_pos attacker_pos nc
            \<and> cycling_rejected target_pos attacker_pos nc pm
         then Inr False
         else is_attack_legal target_pos attacker_pos nc None))"
proof (intro conjI impI allI)
  assume "past_moves = None \<or> (\<exists>pm. past_moves = Some pm \<and> length pm < 4)"
  then show "is_attack_legal target_pos attacker_pos nc past_moves
      = is_attack_legal target_pos attacker_pos nc None"
    by (auto simp: is_attack_legal_def split: sum.splits)
next
  fix pm assume a: "past_moves = Some pm \<and> 4 \<le> length pm"
  then have pm: "periodic_move tid target_pos attacker_pos pm
      \<longleftrightarrow> back_and_forth tid pm \<and> fst target_pos > fst attacker_pos" for tid
    using periodic_move_back_and_forth by blast
  show "is_attack_legal target_pos attacker_pos nc past_moves
      = (if passes_basic_rules target_pos attacker_pos nc
            \<and> cycling_rejected target_pos attacker_pos nc pm
         then Inr False
         else is_attack_legal target_pos attacker_pos nc None)"
    using a
    by (auto simp: is_attack_legal_def passes_basic_rules_def cycling_rejected_def pm
        split: sum.splits)
qed

text \<open>
  On the grid with two server layers the attacker stands on node 2 at \<open>(1, 1)\<close> after
  moving 4, 2, 4, 2: the move back to node 4 at \<open>(2, 1)\<close> is adjacent and legal with three
  recorded moves or none, and rejected with the four.
\<close>

theorem anti_cycling_rule_witness:
  "is_attack_legal (2, 1) (1, 1) network_4x2 None = Inr True
   \<and> is_attack_legal (2, 1) (1, 1) network_4x2 (Some [2, 4, 2]) = Inr True
   \<and> passes_basic_rules (2, 1) (1, 1) network_4x2
   \<and> cycling_rejected (2, 1) (1, 1) network_4x2 [4, 2, 4, 2]
   \<and> is_attack_legal (2, 1) (1, 1) network_4x2 (Some [4, 2, 4, 2]) = Inr False"
proof -
  have base: "is_attack_legal (2, 1) (1, 1) network_4x2 None = Inr True" by code_simp
  have p: "passes_basic_rules (2, 1) (1, 1) network_4x2" by code_simp
  have c: "cycling_rejected (2, 1) (1, 1) network_4x2 [4, 2, 4, 2]" by code_simp
  have short: "is_attack_legal (2, 1) (1, 1) network_4x2 (Some [2, 4, 2]) = Inr True"
    using anti_cycling_rule [of "Some [2, 4, 2]" "(2, 1)" "(1, 1)" network_4x2] base by simp
  have long: "is_attack_legal (2, 1) (1, 1) network_4x2 (Some [4, 2, 4, 2]) = Inr False"
    using anti_cycling_rule [of "Some [4, 2, 4, 2]" "(2, 1)" "(1, 1)" network_4x2] p c by simp
  show ?thesis using base short p c long by simp
qed

text \<open>
  Claim C8. \<open>is_attack_legal\<close> returns False when the target is the attacker's own
  position, and when the target is a cell of the grid that holds the START node, whatever
  the adjacency matrix and the move history are.
\<close>

theorem self_and_start_attacks_illegal:
  "is_attack_legal attacker_pos attacker_pos nc past_moves = Inr False
   \<and> (i < num_rows nc \<and> j < num_cols nc \<and> cell_type (graph_layout nc) (i, j) = START \<longrightarrow>
        is_attack_legal (int i, int j) attacker_pos nc past_moves = Inr False)"
proof (intro conjI impI)
  show "is_attack_legal attacker_pos attacker_pos nc past_moves = Inr False"
    by (simp add: is_attack_legal_def)
next
  assume "i < num_rows nc \<and> j < num_cols nc \<and> cell_type (graph_layout nc) (i, j) = START"
  then obtain tid where "get_node_id nc (int i, int j) = Inr tid"
    "py_index (node_list nc) tid = Inr START"
    using start_cell_node by blast
  then show "is_attack_legal (int i, int j) attacker_pos nc past_moves = Inr False"
    by (simp add: is_attack_legal_def)
qed

text \<open>
  On the default grid the START cell \<open>(2, 1)\<close> is adjacent to the server at \<open>(1, 1)\<close>
  (cell indices 5 and 3), and the attack on it from there is still illegal.
\<close>

theorem self_and_start_attacks_illegal_witness:
  "cell_type (graph_layout network_3x2) (2, 1) = START
   \<and> adjacent network_3x2 (1, 1) (2, 1) = Inr True
   \<and> is_attack_legal (2, 1) (1, 1) network_3x2 None = Inr False
   \<and> is_attack_legal (1, 1) (1, 1) network_3x2 None = Inr False"
proof -
  have s: "(2::nat) < num_rows network_3x2 \<and> (1::nat) < num_cols network_3x2
      \<and> cell_type (graph_layout network_3x2) (2, 1) = START"
    by (simp add: network_3x2_def cell_type_def)
  have a: "adjacent network_3x2 (1, 1) (2, 1) = Inr True" by code_simp
  from self_and_start_attacks_illegal [of "(1, 1)" network_3x2 None 2 1] s
  show ?thesis using a by simp
qed

section \<open>Defense legality\<close>

text \<open>
  Claim C2. \<open>is_defense_id_legal\<close> is not total on the defense action space. The default
  game has \<open>num_defense_actions = 44\<close>, but \<open>interpret_action\<close> divides the id by
  \<open>num_attack_types = 10\<close>: the ids 40 to 43 decode to node 4, which does not exist, and
  \<open>get_node_pos\<close> raises ValueError.
\<close>

theorem is_defense_id_legal_raises:
  "num_defense_actions game_default = 44
   \<and> is_defense_id_legal 39 game_default = Inr False
   \<and> is_defense_id_legal 40 game_default = Inl ValueError
   \<and> is_defense_id_legal 43 game_default = Inl ValueError"
  by code_simp

section \<open>Adding a model to an opponent pool\<close>

lemma scores_of_scored:
  "\<forall>x \<in> set pool. is_scored x \<Longrightarrow> \<exists>qs. get_pool_quality_scores pool = Inr qs \<and> length qs = length pool"
proof (induction pool)
  case Nil
  then show ?case by simp
next
  case (Cons x xs)
  then obtain qs where "get_pool_quality_scores xs = Inr qs" "length qs = length xs" by auto
  moreover obtain m q where "x = Scored m q"
    using Cons.prems by (cases x) (auto simp: is_scored_def)
  ultimately show ?case by (simp add: entry_quality_def)
qed

lemma py_max_Max: "qs \<noteq> [] \<Longrightarrow> py_max qs = Inr (Max (set qs))"
  by (cases qs) (simp_all add: py_max_def Max.set_eq_fold [symmetric])

lemma pool_append_length:
  "int (length (fst (pool_append opc model_copy pool)))
   \<le> max (int (length pool)) (pool_maxsize opc)"
proof (cases pool)
  case Nil
  then show ?thesis by (auto simp: pool_append_def Let_def split: sum.splits)
next
  case (Cons x xs)
  then show ?thesis by (auto simp: pool_append_def Let_def split: sum.splits)
qed

lemma pool_append_result:
  assumes "pool = [] \<longrightarrow> 1 \<le> pool_maxsize opc"
    and "quality_scores opc \<longrightarrow> (\<forall>x \<in> set pool. is_scored x)"
  shows "\<exists>new. pool_append opc model_copy pool
            = (after_eviction (pool_maxsize opc) pool @ [new], None)
          \<and> (\<not> quality_scores opc \<longrightarrow> new = Bare model_copy)
          \<and> (quality_scores opc \<and> after_eviction (pool_maxsize opc) pool = [] \<longrightarrow>
                new = Scored model_copy (initial_quality opc))
          \<and> (quality_scores opc \<and> after_eviction (pool_maxsize opc) pool \<noteq> [] \<longrightarrow>
                (\<exists>qs. get_pool_quality_scores (after_eviction (pool_maxsize opc) pool) = Inr qs
                      \<and> new = Scored model_copy (Max (set qs))))"
proof -
  let ?kept = "after_eviction (pool_maxsize opc) pool"
  have ne: "\<not> (int (length pool) \<ge> pool_maxsize opc \<and> pool = [])" using assms(1) by auto
  have kept: "(if int (length pool) \<ge> pool_maxsize opc then tl pool else pool) = ?kept"
    by (simp add: after_eviction_def)
  show ?thesis
  proof (cases "quality_scores opc")
    case False
    then show ?thesis using ne kept by (simp add: pool_append_def Let_def)
  next
    case True
    show ?thesis
    proof (cases "?kept = []")
      case True
      then show ?thesis using \<open>quality_scores opc\<close> ne kept by (simp add: pool_append_def Let_def)
    next
      case False
      have "set ?kept \<subseteq> set pool"
        by (cases pool) (auto simp: after_eviction_def)
      then have "\<forall>x \<in> set ?kept. is_scored x"
        using assms(2) \<open>quality_scores opc\<close> by blast
      then obtain qs where qs: "get_pool_quality_scores ?kept = Inr qs" "length qs = length ?kept"
        using scores_of_scored by blast
      then have "qs \<noteq> []" using False by auto
      then have "py_max qs = Inr (Max (set qs))" by (rule py_max_Max)
      then show ?thesis using \<open>quality_scores opc\<close> ne kept False qs
        by (simp add: pool_append_def Let_def)
    qed
  qed
qed

lemma add_model_to_pool_pool_append:
  assumes "opponent_pool cfg" and "opponent_pool_config cfg = Some opc"
  shows "pool_of a (fst (add_model_to_pool cfg a st))
           = fst (pool_append opc (policy_of a st) (pool_of a st))
         \<and> snd (add_model_to_pool cfg a st)
           = snd (pool_append opc (policy_of a st) (pool_of a st))
         \<and> pool_of (\<not> a) (fst (add_model_to_pool cfg a st)) = pool_of (\<not> a) st"
  using assms
  by (auto simp: add_model_to_pool_def pool_of_def policy_of_def split: prod.splits)

text \<open>
  Claim C5, amended. With an opponent pool configured, \<open>add_model_to_pool\<close> never grows
  its pool beyond \<open>pool_maxsize\<close>: whether it returns or raises, the pool afterwards has at
  most as many entries as the larger of its size before and \<open>pool_maxsize\<close>, so a pool
  within capacity stays within capacity. When the pool is not both empty and of capacity
  below 1 and, with quality scoring, every entry is a \<open>[model, score]\<close> pair, the call
  returns and the pool is the old pool, without its first entry if it had reached capacity,
  followed by one new entry; the other pool is untouched. With quality scoring the new
  entry's score is \<open>initial_quality\<close> when no entry is left after the eviction, and the
  maximum of the scores left after the eviction otherwise.
\<close>

theorem add_model_to_pool_bounded:
  assumes "opponent_pool cfg" and "opponent_pool_config cfg = Some opc"
  shows "int (length (pool_of a (fst (add_model_to_pool cfg a st))))
           \<le> max (int (length (pool_of a st))) (pool_maxsize opc)
     \<and> ((pool_of a st = [] \<longrightarrow> 1 \<le> pool_maxsize opc)
          \<and> (quality_scores opc \<longrightarrow> (\<forall>x \<in> set (pool_of a st). is_scored x)) \<longrightarrow>
        (\<exists>new.
           snd (add_model_to_pool cfg a st) = None
           \<and> pool_of a (fst (add_model_to_pool cfg a st))
               = after_eviction (pool_maxsize opc) (pool_of a st) @ [new]
           \<and> pool_of (\<not> a) (fst (add_model_to_pool cfg a st)) = pool_of (\<not> a) st
           \<and> (\<not> quality_scores opc \<longrightarrow> new = Bare (policy_of a st))
           \<and> (quality_scores opc \<and> after_eviction (pool_maxsize opc) (pool_of a st) = [] \<longrightarrow>
                 new = Scored (policy_of a st) (initial_quality opc))
           \<and> (quality_scores opc \<and> after_eviction (pool_maxsize opc) (pool_of a st) \<noteq> [] \<longrightarrow>
                 (\<exists>qs. get_pool_quality_scores
                          (after_eviction (pool_maxsize opc) (pool_of a st)) = Inr qs
                       \<and> new = Scored (policy_of a st) (Max (set qs))))))"
proof (intro conjI impI)
  note eqs = add_model_to_pool_pool_append [OF assms(1,2), of a st]
  show "int (length (pool_of a (fst (add_model_to_pool cfg a st))))
           \<le> max (int (length (pool_of a st))) (pool_maxsize opc)"
    using eqs pool_append_length [of opc "policy_of a st" "pool_of a st"] by simp
next
  note eqs = add_model_to_pool_pool_append [OF assms(1,2), of a st]
  assume h: "(pool_of a st = [] \<longrightarrow> 1 \<le> pool_maxsize opc)
      \<and> (quality_scores opc \<longrightarrow> (\<forall>x \<in> set (pool_of a st). is_scored x))"
  from pool_append_result [of "pool_of a st" opc "policy_of a st"] h
  obtain new where new: "pool_append opc (policy_of a st) (pool_of a st)
          = (after_eviction (pool_maxsize opc) (pool_of a st) @ [new], None)"
     "\<not> quality_scores opc \<longrightarrow> new = Bare (policy_of a st)"
     "quality_scores opc \<and> after_eviction (pool_maxsize opc) (pool_of a st) = [] \<longrightarrow>
                new = Scored (policy_of a st) (initial_quality opc)"
     "quality_scores opc \<and> after_eviction (pool_maxsize opc) (pool_of a st) \<noteq> [] \<longrightarrow>
                (\<exists>qs. get_pool_quality_scores (after_eviction (pool_maxsize opc) (pool_of a st))
                        = Inr qs
                      \<and> new = Scored (policy_of a st) (Max (set qs)))"
    by blast
  show "\<exists>new.
           snd (add_model_to_pool cfg a st) = None
           \<and> pool_of a (fst (add_model_to_pool cfg a st))
               = after_eviction (pool_maxsize opc) (pool_of a st) @ [new]
           \<and> pool_of (\<not> a) (fst (add_model_to_pool cfg a st)) = pool_of (\<not> a) st
           \<and> (\<not> quality_scores opc \<longrightarrow> new = Bare (policy_of a st))
           \<and> (quality_scores opc \<and> after_eviction (pool_maxsize opc) (pool_of a st) = [] \<longrightarrow>
                 new = Scored (policy_of a st) (initial_quality opc))
           \<and> (quality_scores opc \<and> after_eviction (pool_maxsize opc) (pool_of a st) \<noteq> [] \<longrightarrow>
                 (\<exists>qs. get_pool_quality_scores
                          (after_eviction (pool_maxsize opc) (pool_of a st)) = Inr qs
                       \<and> new = Scored (policy_of a st) (Max (set qs))))"
    by (rule exI [of _ new]) (use eqs new in simp)
qed

text \<open>
  At capacity three with the scores 5, 1 and 2, the entry with score 5 is evicted and the new
  snapshot gets the score 2.
\<close>

theorem add_model_to_pool_bounded_witness:
  "add_model_to_pool agent_config_3 True pools_full
     = (pools_full\<lparr>attacker_pool := [Scored (PolicySnapshot 2) 1, Scored (PolicySnapshot 3) 2,
                                      Scored (PolicySnapshot 7) 2]\<rparr>, None)
   \<and> int (length (pool_of True (fst (add_model_to_pool agent_config_3 True pools_full)))) \<le> 3"
proof -
  have c: "opponent_pool agent_config_3" "opponent_pool_config agent_config_3 = Some pool_config_3"
    by (simp_all add: agent_config_3_def)
  have e: "add_model_to_pool agent_config_3 True pools_full
     = (pools_full\<lparr>attacker_pool := [Scored (PolicySnapshot 2) 1, Scored (PolicySnapshot 3) 2,
                                      Scored (PolicySnapshot 7) 2]\<rparr>, None)"
    by code_simp
  from add_model_to_pool_bounded [OF c, of True pools_full]
  have "int (length (pool_of True (fst (add_model_to_pool agent_config_3 True pools_full))))
      \<le> max (int (length (pool_of True pools_full))) (pool_maxsize pool_config_3)" by blast
  then have "int (length (pool_of True (fst (add_model_to_pool agent_config_3 True pools_full))))
      \<le> 3" by (simp add: pool_of_def pools_full_def pool_config_3_def)
  then show ?thesis using e by simp
qed

text \<open>
  The claim as stated fails: with \<open>pool_maxsize = 1\<close> and \<open>baselines_in_pool\<close> the
  constructor seeds the attacker pool with two bots, and the first \<open>add_model_to_pool\<close>
  of \<open>_setup_model\<close> evicts one and appends one, leaving two entries.
\<close>

theorem add_model_to_pool_over_capacity:
  "pool_maxsize pool_config_1 = 1
   \<and> attacker_pool (initial_pools agent_config_1)
       = [Scored AttackMaximalValueBotAgent 1, Scored RandomAttackBotAgent 1]
   \<and> attacker_pool (fst (add_model_to_pool agent_config_1 True (initial_pools agent_config_1)))
       = [Scored RandomAttackBotAgent 1, Scored (PolicySnapshot 0) 1]
   \<and> \<not> int (length (attacker_pool
            (fst (add_model_to_pool agent_config_1 True (initial_pools agent_config_1)))))
         \<le> pool_maxsize pool_config_1"
  by code_simp

text \<open>
  The spec's scenario: an empty pool and \<open>initial_quality = 1.0\<close>; the first entry gets
  the score 1.0, and so does the second.
\<close>

lemma add_model_to_pool_scenario:
  "add_model_to_pool agent_config_3 True (initial_pools agent_config_3)
     = ((initial_pools agent_config_3)\<lparr>attacker_pool := [Scored (PolicySnapshot 0) 1]\<rparr>, None)
   \<and> add_model_to_pool agent_config_3 True
        ((initial_pools agent_config_3)\<lparr>attacker_pool := [Scored (PolicySnapshot 0) 1]\<rparr>)
     = ((initial_pools agent_config_3)\<lparr>attacker_pool :=
           [Scored (PolicySnapshot 0) 1, Scored (PolicySnapshot 0) 1]\<rparr>, None)"
  by code_simp

section \<open>Episode bookkeeping\<close>

lemma stats_ok_initial: "stats_ok initial_stats"
  by (simp add: stats_ok_def initial_stats_def)

lemma stats_ok_record_episode: "stats_ok s \<Longrightarrow> stats_ok (record_episode hacked s)"
  by (simp add: stats_ok_def record_episode_def Let_def)

lemma quotient_in_unit_interval:
  fixes a b :: int
  assumes "0 \<le> a" "a \<le> b" "0 < b"
  shows "0 \<le> real_of_int a / real_of_int b \<and> real_of_int a / real_of_int b \<le> 1"
  using assms by simp

lemma stats_ok_log_training_window: "stats_ok s \<Longrightarrow> stats_ok (log_training_window s)"
  using quotient_in_unit_interval [of "num_train_hacks s" "num_train_games s"]
    quotient_in_unit_interval [of "num_train_hacks_total s" "num_train_games_total s"]
  by (simp add: stats_ok_def log_training_window_def Let_def)

lemma stats_ok_step: "stats_ok s \<Longrightarrow> stats_ok (train_event_step ev s)"
  by (cases ev) (simp_all add: stats_ok_record_episode stats_ok_log_training_window)

lemma stats_ok_fold: "stats_ok s \<Longrightarrow> stats_ok (fold train_event_step events s)"
  by (induction events arbitrary: s) (simp_all add: stats_ok_step)

lemma totals_monotone_step:
  "num_train_games_total s \<le> num_train_games_total (train_event_step ev s)
   \<and> num_train_hacks_total s \<le> num_train_hacks_total (train_event_step ev s)"
  by (cases ev) (simp_all add: record_episode_def log_training_window_def Let_def)

lemma totals_monotone_fold:
  "num_train_games_total s \<le> num_train_games_total (fold train_event_step events s)
   \<and> num_train_hacks_total s \<le> num_train_hacks_total (fold train_event_step events s)"
proof (induction events arbitrary: s)
  case Nil
  then show ?case by simp
next
  case (Cons ev events)
  show ?case
    using totals_monotone_step [of s ev] Cons.IH [of "train_event_step ev s"] by simp
qed

text \<open>
  Claim C10. After any sequence of episode ends and logging branches, starting from the
  counters of a new trainer, \<open>num_train_hacks <= num_train_games\<close> and
  \<open>num_train_hacks_total <= num_train_games_total\<close> hold, the windowed and the cumulative
  hack probability lie in \<open>[0, 1]\<close>, and the two total counters never go down as the run
  continues.
\<close>

theorem hack_counters_bounded:
  "stats_ok (run_training events)
   \<and> num_train_games_total (run_training events)
       \<le> num_train_games_total (run_training (events @ later))
   \<and> num_train_hacks_total (run_training events)
       \<le> num_train_hacks_total (run_training (events @ later))"
  using stats_ok_fold [OF stats_ok_initial, of events]
    totals_monotone_fold [of "fold train_event_step events initial_stats" later]
  by (simp add: run_training_def)

theorem hack_counters_bounded_witness:
  "run_training [EpisodeDone True, EpisodeDone False, EpisodeDone True, LogWindow, EpisodeDone False]
     = \<lparr>num_train_games = 1, num_train_hacks = 0, num_train_games_total = 4,
        num_train_hacks_total = 2, train_hack_probability = 2 / 3,
        train_cumulative_hack_probability = 2 / 3\<rparr>
   \<and> stats_ok (run_training
        [EpisodeDone True, EpisodeDone False, EpisodeDone True, LogWindow, EpisodeDone False])"
proof -
  have "run_training [EpisodeDone True, EpisodeDone False, EpisodeDone True, LogWindow, EpisodeDone False]
     = \<lparr>num_train_games = 1, num_train_hacks = 0, num_train_games_total = 4,
        num_train_hacks_total = 2, train_hack_probability = 2 / 3,
        train_cumulative_hack_probability = 2 / 3\<rparr>"
    by (simp add: run_training_def record_episode_def log_training_window_def initial_stats_def)
  then show ?thesis
    using hack_counters_bounded [of "[EpisodeDone True, EpisodeDone False, EpisodeDone True, LogWindow, EpisodeDone False]" "[]"]
    by simp
qed

text \<open>\<open>collect_rollouts\<close> keeps the invariant, however it ends.\<close>

lemma rollout_pass_stats:
  "stats (snd (snd (rollout_pass cfg space num_envs o_step n loc tr))) = stats tr
   \<or> stats (snd (snd (rollout_pass cfg space num_envs o_step n loc tr)))
      = record_episode (prev_episode_hacked o_step) (stats tr)"
  by (auto simp: rollout_pass_def Let_def split: prod.splits sum.splits)

lemma rollout_loop_stats_ok:
  "stats_ok (stats tr) \<Longrightarrow>
   stats_ok (stats (snd (snd (rollout_loop cfg space num_envs env n_rollout_steps n_steps loc tr))))"
proof (induction cfg space num_envs env n_rollout_steps n_steps loc tr rule: rollout_loop.induct)
  case (1 cfg space num_envs env n_rollout_steps n_steps loc tr)
  show ?case
  proof (cases "int n_steps < n_rollout_steps")
    case False
    then show ?thesis using "1.prems" by simp
  next
    case True
    obtain r loc' tr' where p: "rollout_pass cfg space num_envs (env n_steps) n_steps loc tr = (r, loc', tr')"
      by (cases "rollout_pass cfg space num_envs (env n_steps) n_steps loc tr") auto
    have ok: "stats_ok (stats tr')"
      using rollout_pass_stats [of cfg space num_envs "env n_steps" n_steps loc tr] p "1.prems"
      by (auto simp: stats_ok_record_episode)
    show ?thesis
    proof (cases r)
      case None
      then show ?thesis using True p ok "1.IH" [OF True p [symmetric, unfolded None] refl refl ok]
        by (simp del: rollout_loop.simps add: rollout_loop.simps [of cfg space num_envs env n_rollout_steps n_steps])
    next
      case (Some res)
      then show ?thesis using True p ok
        by (simp del: rollout_loop.simps add: rollout_loop.simps [of cfg space num_envs env n_rollout_steps n_steps])
    qed
  qed
qed

theorem collect_rollouts_stats_ok:
  assumes "stats_ok (stats tr)"
  shows "stats_ok (stats (snd (collect_rollouts cfg space num_envs env n_rollout_steps tr)))"
proof -
  define tr2 where "tr2 = (if defender cfg
               then (if attacker cfg then tr\<lparr>attacker_rollout_buffer := []\<rparr> else tr)
                      \<lparr>defender_rollout_buffer := []\<rparr>
               else (if attacker cfg then tr\<lparr>attacker_rollout_buffer := []\<rparr> else tr))"
  define loc where "loc = \<lparr>attacker_values_bound = False, defender_values_bound = False,
                 dones_bound = False\<rparr>"
  have "stats_ok (stats tr2)" using assms by (simp add: tr2_def)
  from rollout_loop_stats_ok [OF this, of cfg space num_envs env n_rollout_steps 0 loc]
  have ok: "stats_ok (stats (snd (snd (rollout_loop cfg space num_envs env n_rollout_steps 0 loc tr2))))" .
  obtain r loc' tr' where l: "rollout_loop cfg space num_envs env n_rollout_steps 0 loc tr2 = (r, loc', tr')"
    by (cases "rollout_loop cfg space num_envs env n_rollout_steps 0 loc tr2") auto
  have c: "collect_rollouts cfg space num_envs env n_rollout_steps tr
     = (case (r, loc', tr') of
           (Some r, loc', tr') \<Rightarrow> (r, tr')
         | (None, loc', tr') \<Rightarrow>
             if attacker cfg \<and> \<not> (attacker_values_bound loc' \<and> dones_bound loc') then
               (Raised UnboundLocalError, tr')
             else if defender cfg \<and> \<not> (defender_values_bound loc' \<and> dones_bound loc') then
               (Raised UnboundLocalError, tr')
             else (Completed, tr'))"
    unfolding collect_rollouts_def Let_def l [symmetric] tr2_def loc_def
    by (simp del: rollout_loop.simps)
  have "snd (collect_rollouts cfg space num_envs env n_rollout_steps tr) = tr'"
    unfolding c by (cases r) simp_all
  then show ?thesis using ok l by simp
qed

section \<open>Rollout collection\<close>

text \<open>
  Claim C4. A side whose train flag is off, with no opponent pool, is not a no-op
  collector in the code. Under alternating optimisation without a pool, \<open>learn\<close> switches
  the trained side to the defender; the next \<open>collect_rollouts\<close> then raises in its first
  pass, before any transition is added to either buffer: AttributeError from
  \<open>attacker_actions.reshape\<close> on the list \<open>[0]\<close> with a Discrete action space,
  UnboundLocalError from the unbound \<open>attacker_values\<close> otherwise. The branch for an
  active pool tests the train flag before it adds; the branch without a pool does not.
\<close>

theorem collect_rollouts_untrained_side_raises:
  "switch_trained_side agent_config_no_pool 2 1 trainer_start
     = trainer_start\<lparr>train_attacker := False, train_defender := True\<rparr>
   \<and> collect_rollouts agent_config_no_pool Discrete 1 env_quiet 3
        (trainer_start\<lparr>train_attacker := False, train_defender := True\<rparr>)
     = (Raised AttributeError,
        trainer_start\<lparr>train_attacker := False, train_defender := True, num_timesteps := 1\<rparr>)
   \<and> collect_rollouts agent_config_no_pool Box 1 env_quiet 3
        (trainer_start\<lparr>train_attacker := False, train_defender := True\<rparr>)
     = (Raised UnboundLocalError,
        trainer_start\<lparr>train_attacker := False, train_defender := True, num_timesteps := 1\<rparr>)"
  by code_simp

section \<open>Further properties\<close>

subsection \<open>Defense legality on the ids that name a node\<close>

lemma py_index_in_range: "0 \<le> i \<Longrightarrow> i < int (length xs) \<Longrightarrow> py_index xs i = Inr (xs ! nat i)"
  by (simp add: py_index_def)

text \<open>
  Below \<open>num_attack_types * len(node_list)\<close> the predicate is total: it returns True for
  a SERVER or DATA node and False for the START node.
\<close>

theorem is_defense_id_legal_on_nodes:
  assumes "0 \<le> d"
    and "d < num_attack_types gc * int (length (node_list (network_config gc)))"
  shows "is_defense_id_legal d gc
         = Inr (node_list (network_config gc) ! nat (d div num_attack_types gc) = SERVER
                \<or> node_list (network_config gc) ! nat (d div num_attack_types gc) = DATA)"
proof -
  let ?A = "num_attack_types gc"
  let ?nl = "node_list (network_config gc)"
  have A: "0 < ?A"
  proof (rule ccontr)
    assume "\<not> 0 < ?A"
    then have "?A * int (length ?nl) \<le> 0" by (simp add: mult_nonpos_nonneg)
    then show False using assms by simp
  qed
  have lo: "0 \<le> d div ?A" using assms(1) A by (simp add: pos_imp_zdiv_nonneg_iff)
  have hi: "d div ?A < int (length ?nl)"
  proof (rule ccontr)
    assume "\<not> d div ?A < int (length ?nl)"
    then have "?A * int (length ?nl) \<le> ?A * (d div ?A)" using A by (simp add: mult_left_mono)
    moreover have "d = ?A * (d div ?A) + d mod ?A" by simp
    moreover have "0 \<le> d mod ?A" using A by simp
    ultimately have "?A * int (length ?nl) \<le> d" by linarith
    then
    show False using assms(2) by simp
  qed
  obtain p where p: "get_node_pos (network_config gc) (d div ?A) = Inr p"
    using get_node_pos_returns [OF lo hi] by blast
  show ?thesis
    using A p py_index_in_range [OF lo hi]
    by (simp add: is_defense_id_legal_def interpret_action_def get_attack_defense_type_def)
qed

theorem is_defense_id_legal_on_nodes_witness:
  "is_defense_id_legal 9 game_default = Inr True
   \<and> is_defense_id_legal 23 game_default = Inr True
   \<and> is_defense_id_legal 39 game_default = Inr False"
proof -
  have nl: "node_list (network_config game_default) = [DATA, SERVER, SERVER, START]"
    by (simp add: game_default_def node_list_3x2)
  have a: "num_attack_types game_default = 10" by (simp add: game_default_def)
  show ?thesis
    using is_defense_id_legal_on_nodes [of 9 game_default]
      is_defense_id_legal_on_nodes [of 23 game_default]
      is_defense_id_legal_on_nodes [of 39 game_default]
    by (simp add: nl a)
qed

text \<open>From \<open>num_attack_types * len(node_list)\<close> on, every id raises.\<close>

theorem is_defense_id_legal_beyond_nodes:
  assumes "0 < num_attack_types gc"
    and "num_attack_types gc * int (length (node_list (network_config gc))) \<le> d"
  shows "\<exists>e. is_defense_id_legal d gc = Inl e"
proof -
  let ?A = "num_attack_types gc"
  let ?nl = "node_list (network_config gc)"
  have "int (length ?nl) \<le> d div ?A"
  proof (rule ccontr)
    assume "\<not> int (length ?nl) \<le> d div ?A"
    then have "d div ?A + 1 \<le> int (length ?nl)" by simp
    then have "?A * (d div ?A + 1) \<le> ?A * int (length ?nl)"
      using assms(1) by (simp only: mult_le_cancel_left_pos)
    then have "?A * (d div ?A) + ?A \<le> d" using assms(2) by (simp add: distrib_left)
    moreover have "d = ?A * (d div ?A) + d mod ?A" by simp
    moreover have "d mod ?A < ?A" using assms(1) by simp
    ultimately show False by linarith
  qed
  then have "py_index ?nl (d div ?A) = Inl IndexError"
    by (auto simp: py_index_def)
  then show ?thesis
    using assms(1)
    by (auto simp: is_defense_id_legal_def interpret_action_def get_attack_defense_type_def
        Let_def split: sum.splits)
qed

theorem is_defense_id_legal_beyond_nodes_witness:
  "num_attack_types game_default * int (length (node_list (network_config game_default))) = 40
   \<and> (\<exists>e. is_defense_id_legal 41 game_default = Inl e)"
proof -
  have nl: "node_list (network_config game_default) = [DATA, SERVER, SERVER, START]"
    by (simp add: game_default_def node_list_3x2)
  have a: "num_attack_types game_default = 10" by (simp add: game_default_def)
  show ?thesis
    using is_defense_id_legal_beyond_nodes [of game_default 41] by (simp add: nl a)
qed

subsection \<open>The node count of a default game\<close>

lemma cell_type_default:
  "i < r \<Longrightarrow> j < c \<Longrightarrow> cell_type (default_graph_layout r c) (i, j) = default_cell r c i j"
  by (simp add: cell_type_def default_graph_layout_def)

lemma length_filter_eq_upt: "length (filter (\<lambda>j. j = k) [0..<c]) = (if k < c then 1 else 0)"
proof (induction c)
  case 0
  then show ?case by simp
next
  case (Suc c)
  then show ?case by auto
qed

lemma row_nodes_eq:
  assumes "i < r" "0 < c"
  shows "row_nodes r c i = (if i = 0 \<or> Suc i = r then 1 else c)"
proof -
  have "filter (\<lambda>j. cell_type (default_graph_layout r c) (i, j) \<noteq> EMPTY) [0..<c]
        = filter (\<lambda>j. default_cell r c i j \<noteq> EMPTY) [0..<c]"
    by (rule filter_cong) (use assms(1) in \<open>auto simp: cell_type_default\<close>)
  then have e: "row_nodes r c i = length (filter (\<lambda>j. default_cell r c i j \<noteq> EMPTY) [0..<c])"
    by (simp add: row_nodes_def filter_map comp_def)
  show ?thesis
  proof (cases "i = 0 \<or> Suc i = r")
    case True
    then have "(\<lambda>j. default_cell r c i j \<noteq> EMPTY) = (\<lambda>j. j = c div 2)"
      using assms(1) by (auto simp: default_cell_def fun_eq_iff)
    then show ?thesis using True e assms(2) by (simp add: length_filter_eq_upt)
  next
    case False
    then have "(\<lambda>j. default_cell r c i j \<noteq> EMPTY) = (\<lambda>j. True)"
      using assms(1) by (auto simp: default_cell_def fun_eq_iff)
    then show ?thesis using False e by simp
  qed
qed

lemma length_node_list_rows:
  "length (filter (\<lambda>p. cell_type (default_graph_layout r c) p \<noteq> EMPTY) (grid_cells r c))
   = sum_list (map (row_nodes r c) [0..<r])"
  by (simp add: grid_cells_def filter_concat length_concat comp_def row_nodes_def [abs_def]
      filter_map)

lemma sum_rows:
  assumes "0 < c"
  shows "sum_list (map (row_nodes (Suc (Suc m)) c) [0..<Suc (Suc m)]) = 2 + m * c"
proof -
  let ?f = "row_nodes (Suc (Suc m)) c"
  have "[0..<Suc (Suc m)] = [0..<Suc m] @ [Suc m]" by simp
  moreover have "[0..<Suc m] = 0 # [Suc 0..<Suc m]" by (rule upt_conv_Cons) simp
  ultimately have split: "[0..<Suc (Suc m)] = 0 # [Suc 0..<Suc m] @ [Suc m]" by simp
  have mid: "map ?f [Suc 0..<Suc m] = map (\<lambda>i. c) [Suc 0..<Suc m]"
    by (rule map_cong) (use assms in \<open>auto simp: row_nodes_eq\<close>)
  have s: "sum_list (map ?f [Suc 0..<Suc m]) = m * c"
    unfolding mid by (simp add: sum_list_triv del: upt_Suc)
  have e: "?f 0 = 1" "?f (Suc m) = 1" using assms by (simp_all add: row_nodes_eq)
  have "sum_list (map ?f (0 # [Suc 0..<Suc m] @ [Suc m])) = 2 + m * c"
    using s e by (simp del: upt_Suc)
  then show ?thesis by (simp only: split)
qed

lemma find_cell_Inr: "find_cell g t ps = Inr p \<Longrightarrow> p \<in> set ps \<and> cell_type g p = t"
  by (induction ps) (auto split: if_splits)

lemma for_each_first:
  "for_each body (x # xs) s = Inr s' \<Longrightarrow> \<exists>t. body x s = Inr t"
  by (auto split: sum.splits)

lemma default_grid_sizes:
  assumes "default_adjacency_matrix r c (default_graph_layout r c) = Inr a"
    and "start_pos r c (default_graph_layout r c) = Inr sp"
  shows "2 \<le> r \<and> 1 \<le> c"
proof -
  from find_cell_Inr [OF assms(2) [unfolded start_pos_def]]
  have rc: "0 < r" "0 < c" by (auto simp: in_grid_cells)
  then have "(0, 0) \<in> set (grid_cells (r * c) (r * c))" by (simp add: in_grid_cells)
  then obtain x xs where xs: "grid_cells (r * c) (r * c) = x # xs"
    by (cases "grid_cells (r * c) (r * c)") auto
  from for_each_first [OF assms(1) [unfolded default_adjacency_matrix_def xs]]
  obtain t where "adjacency_body r c (default_graph_layout r c) x
      (replicate (r * c) (replicate (c * r) 0)) = Inr t"
    by blast
  then obtain dp where dp: "data_pos r c (default_graph_layout r c) = Inr dp"
    by (auto simp: adjacency_body_def Let_def split: sum.splits)
  from find_cell_Inr [OF dp [unfolded data_pos_def]]
  have "fst dp < r" "snd dp < c" "cell_type (default_graph_layout r c) dp = DATA"
    by (auto simp: in_grid_cells)
  then have "default_cell r c (fst dp) (snd dp) = DATA"
    using cell_type_default [of "fst dp" r "snd dp" c] by simp
  then have "r \<noteq> 1" by (auto simp: default_cell_def split: if_splits)
  then show ?thesis using rc by simp
qed

text \<open>
  Whenever \<open>GameConfig\<close> builds its own network, \<open>num_nodes\<close> is the number of
  non-EMPTY cells of the grid, and the attack action space has one id per node and type.
\<close>

theorem default_game_num_nodes:
  assumes "new_GameConfig None layers servers attack_types maxv = Inr gc"
  shows "num_nodes gc = int (length (node_list (network_config gc)))
     \<and> num_attack_actions gc = num_attack_types gc * int (length (node_list (network_config gc)))"
proof -
  from assms obtain nc sp where
    nc: "new_NetworkConfig (layers + 2) servers = Inr nc" and
    sp: "start_pos (num_rows nc) (num_cols nc) (graph_layout nc) = Inr sp" and
    gc: "network_config gc = nc" "num_nodes gc = layers * servers + 2"
      "num_attack_actions gc = attack_types * (layers * servers + 2)"
      "num_attack_types gc = attack_types"
    by (auto simp: new_GameConfig_def Let_def split: sum.splits)
  define r where "r = nat (layers + 2)"
  define c where "c = nat servers"
  from nc obtain a where
    nn: "0 \<le> layers + 2" "0 \<le> servers" and
    a: "default_adjacency_matrix r c (default_graph_layout r c) = Inr a" and
    ncf: "num_rows nc = r" "num_cols nc = c" "graph_layout nc = default_graph_layout r c"
    by (auto simp: new_NetworkConfig_def Let_def r_def c_def split: if_splits sum.splits)
  from default_grid_sizes [OF a] sp ncf have sz: "2 \<le> r" "1 \<le> c" by simp_all
  define m where "m = r - 2"
  have m: "r = Suc (Suc m)" using sz(1) by (simp add: m_def)
  have "length (node_list nc) = sum_list (map (row_nodes r c) [0..<r])"
    by (simp only: length_node_list ncf length_node_list_rows)
  also have "\<dots> = 2 + m * c"
    unfolding m by (rule sum_rows) (use sz(2) in simp)
  finally have len: "length (node_list nc) = 2 + m * c" .
  have "layers = int m" "servers = int c"
    using m nn by (simp_all add: r_def c_def)
  then show ?thesis using gc len by simp
qed

theorem default_game_num_nodes_witness:
  "new_GameConfig None 1 2 10 9 = Inr game_default
   \<and> num_nodes game_default = 4
   \<and> length (node_list (network_config game_default)) = 4"
  using default_game_num_nodes [OF new_GameConfig_default] new_GameConfig_default
  by (simp add: game_default_def)

subsection \<open>The round trip at node id 0\<close>

lemma grid_cells_first:
  assumes "0 < r" "0 < c"
  shows "\<exists>rest. grid_cells r c = (0, 0) # rest"
proof -
  have "[0..<r] = 0 # [Suc 0..<r]" using assms(1) by (rule upt_conv_Cons)
  moreover have "[0..<c] = 0 # [Suc 0..<c]" using assms(2) by (rule upt_conv_Cons)
  ultimately show ?thesis by (simp add: grid_cells_def)
qed

text \<open>
  On every default grid with at least two columns, \<open>get_node_pos(0)\<close> is the cell
  \<open>(0, 0)\<close>, which is EMPTY, and \<open>get_node_id\<close> maps it to \<open>-1\<close>.
\<close>

lemma round_trip_fails_at_zero:
  assumes "new_NetworkConfig rows cols = Inr nc" and "1 \<le> rows" and "2 \<le> cols"
  shows "get_node_pos nc 0 = Inr (0, 0) \<and> get_node_id nc (0, 0) = Inr (- 1)"
proof -
  from assms have nc: "num_rows nc = nat rows" "num_cols nc = nat cols"
    "graph_layout nc = default_graph_layout (nat rows) (nat cols)"
    by (auto simp: new_NetworkConfig_def Let_def split: if_splits sum.splits)
  have pos: "0 < nat rows" "0 < nat cols" using assms(2,3) by simp_all
  obtain rest where g: "grid_cells (nat rows) (nat cols) = (0, 0) # rest"
    using grid_cells_first [OF pos] by blast
  have "default_cell (nat rows) (nat cols) 0 0 = EMPTY"
    using assms(3) by (auto simp: default_cell_def)
  then have e: "cell_type (graph_layout nc) (0, 0) = EMPTY"
    using cell_type_default [OF pos] nc by simp
  show ?thesis using g e nc by (simp add: get_node_pos_def get_node_id_def)
qed

subsection \<open>The frame of a quality update\<close>

lemma pool_update_quality_frame:
  assumes "pool_update_quality ops opc_opt i pool = Inr pool'"
    and "0 \<le> i" and "i < int (length pool)"
  shows "length pool' = length pool
     \<and> (\<forall>k < length pool. k \<noteq> nat i \<longrightarrow> pool' ! k = pool ! k)
     \<and> (\<exists>m q qs p opc. pool ! nat i = Scored m q
           \<and> opc_opt = Some opc
           \<and> get_pool_quality_scores pool = Inr qs
           \<and> py_index (softmax ops qs) i = Inr p
           \<and> pool' ! nat i
               = Scored m (difference ops q
                   (quotient ops (quality_score_eta opc) (int_times ops (int (length pool)) p))))"
proof -
  from assms(1) obtain qs p opc where
    qs: "get_pool_quality_scores pool = Inr qs" and
    p: "py_index (softmax ops qs) i = Inr p" and
    opc: "opc_opt = Some opc"
    by (auto simp: pool_update_quality_def Let_def split: sum.splits option.splits)
  have e: "py_index pool i = Inr (pool ! nat i)" using assms(2,3) by (simp add: py_index_def)
  have n: "py_index_nat pool i = nat i" using assms(2) by (simp add: py_index_nat_def)
  from assms(1) qs p opc e obtain m q where
    mq: "pool ! nat i = Scored m q"
    by (cases "pool ! nat i")
       (auto simp: pool_update_quality_def Let_def entry_quality_def split: sum.splits)
  have r: "pool' = pool[nat i := Scored m (difference ops q
                   (quotient ops (quality_score_eta opc) (int_times ops (int (length pool)) p)))]"
    using assms(1) qs p opc e n mq
    by (simp add: pool_update_quality_def Let_def entry_quality_def set_entry_quality_def)
  have lt: "nat i < length pool" using assms(2,3) by simp
  show ?thesis
    using r lt mq qs p opc by auto
qed

lemma pool_update_quality_returns:
  assumes "\<forall>x \<in> set pool. is_scored x" and "0 \<le> i" and "i < int (length pool)"
    and "\<And>qs. length (softmax ops qs) = length qs"
  shows "\<exists>pool'. pool_update_quality ops (Some opc) i pool = Inr pool'"
proof -
  obtain qs where qs: "get_pool_quality_scores pool = Inr qs" "length qs = length pool"
    using scores_of_scored [OF assms(1)] by blast
  have p: "py_index (softmax ops qs) i = Inr (softmax ops qs ! nat i)"
    using assms(2,3,4) qs by (simp add: py_index_def)
  have e: "py_index pool i = Inr (pool ! nat i)" using assms(2,3) by (simp add: py_index_def)
  have "is_scored (pool ! nat i)" using assms(1,2,3) by simp
  then obtain m q where mq: "pool ! nat i = Scored m q"
    by (cases "pool ! nat i") (auto simp: is_scored_def)
  show ?thesis using qs p e mq
    by (simp add: pool_update_quality_def Let_def entry_quality_def set_entry_quality_def)
qed

text \<open>
  Whatever the float arithmetic and the softmax are, a call of \<open>update_quality_score\<close>
  that returns has changed one thing: the score of the entry at \<open>opponent_idx\<close>, which is
  now the difference of the old score and \<open>eta / (N * p)\<close>. The pool keeps its length,
  every other entry, and the model of the updated entry; the other pool and the two
  policies are untouched.
\<close>

theorem update_quality_score_frame:
  assumes "update_quality_score ops cfg i a st = Inr st'"
    and "0 \<le> i" and "i < int (length (pool_of a st))"
  shows "length (pool_of a st') = length (pool_of a st)
     \<and> (\<forall>k < length (pool_of a st). k \<noteq> nat i \<longrightarrow> pool_of a st' ! k = pool_of a st ! k)
     \<and> pool_of (\<not> a) st' = pool_of (\<not> a) st
     \<and> attacker_policy st' = attacker_policy st \<and> defender_policy st' = defender_policy st
     \<and> (\<exists>m q qs p opc. pool_of a st ! nat i = Scored m q
           \<and> opponent_pool_config cfg = Some opc
           \<and> get_pool_quality_scores (pool_of a st) = Inr qs
           \<and> py_index (softmax ops qs) i = Inr p
           \<and> pool_of a st' ! nat i
               = Scored m (difference ops q
                   (quotient ops (quality_score_eta opc)
                      (int_times ops (int (length (pool_of a st))) p))))"
proof -
  from assms(1) obtain pool' where
    u: "pool_update_quality ops (opponent_pool_config cfg) i (pool_of a st) = Inr pool'" and
    s: "pool_of a st' = pool'" "pool_of (\<not> a) st' = pool_of (\<not> a) st"
       "attacker_policy st' = attacker_policy st" "defender_policy st' = defender_policy st"
    by (auto simp: update_quality_score_def pool_of_def split: if_splits sum.splits)
  from pool_update_quality_frame [OF u assms(2,3)] s show ?thesis by simp
qed

theorem update_quality_score_frame_witness:
  "update_quality_score exact_ops agent_config_3 1 False pools_two
     = Inr (pools_two\<lparr>defender_pool :=
              [Scored DefendMinimalValueBotAgent 0, Scored RandomDefenseBotAgent (- 1 / 100)]\<rparr>)
   \<and> pool_of False pools_two ! 0 = Scored DefendMinimalValueBotAgent 0"
proof -
  have e: "update_quality_score exact_ops agent_config_3 1 False pools_two
     = Inr (pools_two\<lparr>defender_pool :=
              [Scored DefendMinimalValueBotAgent 0, Scored RandomDefenseBotAgent (- 1 / 100)]\<rparr>)"
    by (simp add: update_quality_score_def pool_update_quality_def exact_ops_def pools_two_def
        agent_config_3_def pool_config_3_def entry_quality_def set_entry_quality_def
        py_index_def py_index_nat_def)
  have l: "(1::int) < int (length (pool_of False pools_two))"
    by (simp add: pool_of_def pools_two_def)
  from update_quality_score_frame [OF e _ l]
  have "pool_of False (pools_two\<lparr>defender_pool :=
              [Scored DefendMinimalValueBotAgent 0, Scored RandomDefenseBotAgent (- 1 / 100)]\<rparr>) ! 0
        = pool_of False pools_two ! 0"
    by (simp add: pool_of_def pools_two_def)
  then show ?thesis using e by (simp add: pool_of_def pools_two_def)
qed

text \<open>
  In exact real arithmetic the new score is strictly smaller for a positive learning rate.
  The code computes in float64, where this does not follow: a decrement that is small
  against the score is rounded away.
\<close>

lemma softmax_exact_positive:
  assumes "k < length qs"
  shows "0 < softmax exact_ops qs ! k"
proof -
  have "exp (qs ! k) \<in> set (map exp qs)" using assms by simp
  have pos: "\<forall>x \<in> set (map exp qs). (0::real) < x" by simp
  have "0 < sum_list (map exp qs)"
    using assms pos
  proof (induction qs arbitrary: k)
    case Nil
    then show ?case by simp
  next
    case (Cons a qs)
    have "0 \<le> sum_list (map exp qs)" by (rule sum_list_nonneg) auto
    then show ?case by (simp add: add_pos_nonneg)
  qed
  then show ?thesis using assms by (simp add: exact_ops_def)
qed

lemma update_quality_score_exact_decreases:
  assumes "pool_update_quality exact_ops (Some opc) i pool = Inr pool'"
    and "0 \<le> i" and "i < int (length pool)" and "0 < quality_score_eta opc"
  shows "\<exists>m q q'. pool ! nat i = Scored m q \<and> pool' ! nat i = Scored m q' \<and> q' < q"
proof -
  from pool_update_quality_frame [OF assms(1,2,3)]
  obtain m q qs p where
    mq: "pool ! nat i = Scored m q" and
    qs: "get_pool_quality_scores pool = Inr qs" and
    p: "py_index (softmax exact_ops qs) i = Inr p" and
    r: "pool' ! nat i = Scored m (difference exact_ops q
          (quotient exact_ops (quality_score_eta opc)
             (int_times exact_ops (int (length pool)) p)))"
    by auto
  have len: "length (softmax exact_ops qs) = length qs" by (simp add: exact_ops_def)
  from p assms(2) have pi: "p = softmax exact_ops qs ! nat i" "nat i < length qs"
    by (auto simp: py_index_def len split: if_splits)
  then have "0 < p" using softmax_exact_positive by simp
  moreover have "0 < real (length pool)" using assms(2,3) by auto
  ultimately have "0 < quality_score_eta opc / (real (length pool) * p)"
    using assms(4) by simp
  then show ?thesis using mq r by (simp add: exact_ops_def)
qed

subsection \<open>Quality updates in float64\<close>

text \<open>
  Rounding onto 53 bits leaves the powers of two and \<open>10 ^ 17\<close> as they are, and takes
  \<open>10 ^ 17 - 1 / 128\<close> back to \<open>10 ^ 17\<close>: the unit in the last place is 16 there.
\<close>

lemma round_even_of_int: "round_even (of_int n) = n"
  by (simp add: round_even_def)

lemma round53_two_powr: "round53 (2 powr of_int k) = 2 powr of_int k"
proof -
  have b: "binade (2 powr of_int k) = k" by (simp add: binade_def)
  have "2 powr of_int k / 2 powr (of_int k - 52) = (2::real) powr 52"
    by (simp add: powr_diff)
  also have "\<dots> = of_int (2 ^ 52)" by simp
  finally have q: "2 powr of_int k / 2 powr (of_int k - 52) = real_of_int (2 ^ 52)" .
  have p: "real_of_int (2 ^ 52) * 2 powr (of_int k - 52) = 2 powr of_int k"
  proof -
    have "real_of_int (2 ^ 52) = 2 powr 52" by simp
    then have "real_of_int (2 ^ 52) * 2 powr (of_int k - 52) = 2 powr 52 * 2 powr (of_int k - 52)"
      by (simp only:)
    also have "\<dots> = 2 powr (52 + (of_int k - 52))" by (simp only: powr_add)
    also have "\<dots> = 2 powr of_int k" by simp
    finally show ?thesis .
  qed
  have nz: "(2::real) powr of_int k \<noteq> 0" by simp
  have "round53 (2 powr of_int k) = of_int (round_even (of_int (2 ^ 52))) * 2 powr (of_int k - 52)"
    unfolding round53_def b Let_def q using nz by (simp only: if_False)
  also have "\<dots> = 2 powr of_int k"
    unfolding round_even_of_int by (rule p)
  finally show ?thesis .
qed

lemma round53_values:
  "round53 1 = 1" "round53 2 = 2" "round53 (1 / 2) = 1 / 2" "round53 (1 / 128) = 1 / 128"
  using round53_two_powr [of 0] round53_two_powr [of 1] round53_two_powr [of "- 1"]
    round53_two_powr [of "- 7"]
  by (simp_all add: powr_neg_numeral powr_minus_divide)

lemma round53_absorbs: "round53 (10 ^ 17 - 1 / 128) = 10 ^ 17"
proof -
  let ?x = "10 ^ 17 - 1 / 128 :: real"
  have pos: "0 < ?x" by simp
  have bnd: "2 powr real_of_int 56 \<le> ?x \<and> ?x < 2 powr real_of_int (56 + 1)" by simp
  have two: "(1::real) < 2" by simp
  have "\<lfloor>log 2 ?x\<rfloor> = 56"
    using floor_log_eq_powr_iff [OF pos two, of 56] bnd by blast
  then have b: "binade ?x = 56" using pos by (simp add: binade_def)
  have u: "(2::real) powr (of_int 56 - 52) = 16" by simp
  have fl: "\<lfloor>?x / 16\<rfloor> = 6249999999999999"
    by (simp add: floor_eq_iff)
  have r: "round_even (?x / 16) = 6250000000000000"
    unfolding round_even_def Let_def fl by simp
  show ?thesis
    unfolding round53_def b Let_def u r by simp
qed


lemma round_even_minus_of_int: "round_even (- of_int n) = - n"
  using round_even_of_int [of "- n"] by simp

lemma round53_minus_two_powr: "round53 (- (2 powr of_int k)) = - (2 powr of_int k)"
proof -
  have b: "binade (- (2 powr of_int k)) = k" by (simp add: binade_def)
  have "2 powr of_int k / 2 powr (of_int k - 52) = (2::real) powr 52"
    by (simp add: powr_diff)
  also have "\<dots> = of_int (2 ^ 52)" by simp
  finally have q: "- (2 powr of_int k) / 2 powr (of_int k - 52) = - real_of_int (2 ^ 52)"
    by simp
  have p: "real_of_int (2 ^ 52) * 2 powr (of_int k - 52) = 2 powr of_int k"
  proof -
    have "real_of_int (2 ^ 52) = 2 powr 52" by simp
    then have "real_of_int (2 ^ 52) * 2 powr (of_int k - 52) = 2 powr 52 * 2 powr (of_int k - 52)"
      by (simp only:)
    also have "\<dots> = 2 powr (52 + (of_int k - 52))" by (simp only: powr_add)
    also have "\<dots> = 2 powr of_int k" by simp
    finally show ?thesis .
  qed
  have nz: "- ((2::real) powr of_int k) \<noteq> 0" by simp
  have "round53 (- (2 powr of_int k))
      = of_int (round_even (- of_int (2 ^ 52))) * 2 powr (of_int k - 52)"
    unfolding round53_def b Let_def q using nz by (simp only: if_False)
  also have "\<dots> = - (real_of_int (2 ^ 52) * 2 powr (of_int k - 52))"
    unfolding round_even_minus_of_int by simp
  also have "\<dots> = - (2 powr of_int k)" by (simp only: p)
  finally show ?thesis .
qed

lemma round53_minus_value: "round53 (- (1 / 128)) = - (1 / 128)"
  using round53_minus_two_powr [of "- 7"] by (simp add: powr_neg_numeral powr_minus_divide)

lemma round53_large: "round53 (10 ^ 17) = 10 ^ 17"
proof -
  let ?x = "10 ^ 17 :: real"
  have pos: "0 < ?x" by simp
  have bnd: "2 powr real_of_int 56 \<le> ?x \<and> ?x < 2 powr real_of_int (56 + 1)" by simp
  have two: "(1::real) < 2" by simp
  have "\<lfloor>log 2 ?x\<rfloor> = 56"
    using floor_log_eq_powr_iff [OF pos two, of 56] bnd by blast
  then have b: "binade ?x = 56" by (simp add: binade_def)
  have u: "(2::real) powr (of_int 56 - 52) = 16" by simp
  have "?x / 16 = real_of_int 6250000000000000" by simp
  then have r: "round_even (?x / 16) = 6250000000000000"
    by (simp only: round_even_of_int)
  show ?thesis
    unfolding round53_def b Let_def u r by simp
qed

lemma float64_softmax_length: "length (float64_softmax qs) = length qs"
  by (simp add: float64_softmax_def Let_def)

lemma float64_softmax_equal_pair: "float64_softmax [v, v] = [1 / 2, 1 / 2]"
  by (simp add: float64_softmax_def round53_values round53_def [of 0])

text \<open>
  Claim C6, amended. For a pool of size \<open>N\<close> whose entries all carry a score, a pool
  configuration, and an index \<open>0 \<le> i < N\<close>, \<open>update_quality_score(i)\<close> returns and
  replaces \<open>score[i]\<close> by the value its arithmetic gives to \<open>score[i] - eta / (N * p)\<close>,
  where \<open>p = softmax(scores)[i]\<close> and \<open>eta\<close> is the configured learning rate. The model
  of the updated entry, every other entry of the pool, the length of the pool, the other
  pool and the two policies are unchanged. This holds for any arithmetic whose softmax
  keeps the length of its argument, and so for float64. That the new score is strictly
  smaller for \<open>eta > 0\<close> is not part of it: in float64 the decrement can be rounded away.
\<close>

theorem update_quality_score_effect:
  assumes "opponent_pool_config cfg = Some opc"
    and "\<forall>x \<in> set (pool_of a st). is_scored x"
    and "\<And>qs. length (softmax ops qs) = length qs"
    and "0 \<le> i" and "i < int (length (pool_of a st))"
  shows "\<exists>st' m q qs.
       update_quality_score ops cfg i a st = Inr st'
     \<and> get_pool_quality_scores (pool_of a st) = Inr qs
     \<and> pool_of a st ! nat i = Scored m q
     \<and> pool_of a st' ! nat i
         = Scored m (difference ops q
             (quotient ops (quality_score_eta opc)
                (int_times ops (int (length (pool_of a st))) (softmax ops qs ! nat i))))
     \<and> length (pool_of a st') = length (pool_of a st)
     \<and> (\<forall>k < length (pool_of a st). k \<noteq> nat i \<longrightarrow> pool_of a st' ! k = pool_of a st ! k)
     \<and> pool_of (\<not> a) st' = pool_of (\<not> a) st
     \<and> attacker_policy st' = attacker_policy st \<and> defender_policy st' = defender_policy st"
proof -
  from pool_update_quality_returns [OF assms(2,4,5,3), of opc]
  obtain pool' where
    u: "pool_update_quality ops (Some opc) i (pool_of a st) = Inr pool'" by blast
  from pool_update_quality_frame [OF u assms(4,5)]
  obtain m q qs p where
    len: "length pool' = length (pool_of a st)" and
    rest: "\<forall>k < length (pool_of a st). k \<noteq> nat i \<longrightarrow> pool' ! k = pool_of a st ! k" and
    mq: "pool_of a st ! nat i = Scored m q" and
    qs: "get_pool_quality_scores (pool_of a st) = Inr qs" and
    p: "py_index (softmax ops qs) i = Inr p" and
    r: "pool' ! nat i = Scored m (difference ops q
          (quotient ops (quality_score_eta opc)
             (int_times ops (int (length (pool_of a st))) p)))"
    by auto
  have pi: "p = softmax ops qs ! nat i"
    using p assms(4) by (auto simp: py_index_def split: if_splits)
  define st' where "st' = (if a then st\<lparr>attacker_pool := pool'\<rparr> else st\<lparr>defender_pool := pool'\<rparr>)"
  have e: "update_quality_score ops cfg i a st = Inr st'"
    using u assms(1) by (cases a) (simp_all add: update_quality_score_def pool_of_def st'_def)
  have s: "pool_of a st' = pool'" "pool_of (\<not> a) st' = pool_of (\<not> a) st"
       "attacker_policy st' = attacker_policy st" "defender_policy st' = defender_policy st"
    by (simp_all add: st'_def pool_of_def)
  show ?thesis
    using e qs mq r len rest s pi by auto
qed

text \<open>
  In float64, with the learning rate \<open>1 / 128\<close> and the scores 0 and 0, the update at index
  1 takes the second score to \<open>- 1 / 128\<close> and leaves the rest of the state as it was.
\<close>

theorem update_quality_score_effect_witness:
  "update_quality_score float64_ops agent_config_eta 1 False pools_two
     = Inr (pools_two\<lparr>defender_pool :=
              [Scored DefendMinimalValueBotAgent 0, Scored RandomDefenseBotAgent (- (1 / 128))]\<rparr>)"
proof -
  have c: "opponent_pool_config agent_config_eta = Some pool_config_eta"
    by (simp add: agent_config_eta_def)
  have sc: "\<forall>x \<in> set (pool_of False pools_two). is_scored x"
    by (simp add: pool_of_def pools_two_def is_scored_def)
  have sl: "\<And>qs. length (softmax float64_ops qs) = length qs"
    by (simp add: float64_ops_def float64_softmax_length)
  have l: "(1::int) < int (length (pool_of False pools_two))"
    by (simp add: pool_of_def pools_two_def)
  from update_quality_score_effect [OF c sc sl _ l]
  obtain st' m q qs where
    e: "update_quality_score float64_ops agent_config_eta 1 False pools_two = Inr st'" and
    qs: "get_pool_quality_scores (pool_of False pools_two) = Inr qs" and
    mq: "pool_of False pools_two ! nat 1 = Scored m q" and
    r: "pool_of False st' ! nat 1
         = Scored m (difference float64_ops q
             (quotient float64_ops (quality_score_eta pool_config_eta)
                (int_times float64_ops (int (length (pool_of False pools_two)))
                   (softmax float64_ops qs ! nat 1))))" and
    len: "length (pool_of False st') = length (pool_of False pools_two)" and
    rest: "\<forall>k < length (pool_of False pools_two). k \<noteq> nat 1 \<longrightarrow>
             pool_of False st' ! k = pool_of False pools_two ! k" and
    s: "pool_of (\<not> False) st' = pool_of (\<not> False) pools_two"
       "attacker_policy st' = attacker_policy pools_two"
       "defender_policy st' = defender_policy pools_two"
    by auto
  have qs': "qs = [0, 0]"
    using qs by (simp add: pool_of_def pools_two_def entry_quality_def)
  have mq': "m = RandomDefenseBotAgent" "q = 0"
    using mq by (simp_all add: pool_of_def pools_two_def)
  have v: "difference float64_ops q
             (quotient float64_ops (quality_score_eta pool_config_eta)
                (int_times float64_ops (int (length (pool_of False pools_two)))
                   (softmax float64_ops qs ! nat 1))) = - (1 / 128)"
    unfolding qs' mq'
    by (simp add: float64_ops_def float64_softmax_equal_pair pool_config_eta_def pool_of_def
        pools_two_def round53_values round53_minus_value)
  have d1: "defender_pool st' ! 1 = Scored RandomDefenseBotAgent (- (1 / 128))"
    using r v mq' by (simp add: pool_of_def)
  have d0: "defender_pool st' ! 0 = Scored DefendMinimalValueBotAgent 0"
    using rest by (simp add: pool_of_def pools_two_def)
  have dl: "length (defender_pool st') = 2"
    using len by (simp add: pool_of_def pools_two_def)
  have "defender_pool st' = [defender_pool st' ! 0, defender_pool st' ! 1]"
    using dl by (cases "defender_pool st'"; cases "tl (defender_pool st')") auto
  then have dp: "defender_pool st'
      = [Scored DefendMinimalValueBotAgent 0, Scored RandomDefenseBotAgent (- (1 / 128))]"
    using d0 d1 by simp
  have "st' = pools_two\<lparr>defender_pool :=
              [Scored DefendMinimalValueBotAgent 0, Scored RandomDefenseBotAgent (- (1 / 128))]\<rparr>"
    using dp s by (simp add: pool_of_def pools_two_def)
  then show ?thesis using e by simp
qed

text \<open>
  The strict decrease fails in float64. With the scores \<open>10 ^ 17\<close> and \<open>10 ^ 17\<close> and the
  learning rate \<open>1 / 128 > 0\<close> the softmax is \<open>[1 / 2, 1 / 2]\<close>, the decrement is
  \<open>1 / 128\<close>, and \<open>10 ^ 17 - 1 / 128\<close> rounds back to \<open>10 ^ 17\<close>: the update at index 0
  returns the state it was given, so \<open>score[0]\<close> has not decreased.
\<close>

theorem update_quality_score_absorbed:
  "0 < quality_score_eta pool_config_eta
   \<and> round53 (quality_score_eta pool_config_eta) = quality_score_eta pool_config_eta
   \<and> round53 (10 ^ 17) = 10 ^ 17
   \<and> pool_of False pools_large ! 0 = Scored DefendMinimalValueBotAgent (10 ^ 17)
   \<and> update_quality_score float64_ops agent_config_eta 0 False pools_large = Inr pools_large"
proof -
  have eta: "0 < quality_score_eta pool_config_eta"
    by (simp add: pool_config_eta_def)
  have rep: "round53 (quality_score_eta pool_config_eta) = quality_score_eta pool_config_eta"
    by (simp add: pool_config_eta_def round53_values)
  have old: "pool_of False pools_large ! 0 = Scored DefendMinimalValueBotAgent (10 ^ 17)"
    by (simp add: pool_of_def pools_large_def)
  have upd: "update_quality_score float64_ops agent_config_eta 0 False pools_large
      = Inr pools_large"
    by (simp add: update_quality_score_def pool_update_quality_def pools_large_def
        agent_config_eta_def pool_config_eta_def entry_quality_def set_entry_quality_def
        py_index_def py_index_nat_def float64_ops_def float64_softmax_equal_pair
        round53_values round53_absorbs [simplified])
  show ?thesis
    by (intro conjI) (rule eta rep round53_large old upd)+
qed

subsection \<open>Collection for the trained side only\<close>

lemma attacker_only_pass:
  assumes "attacker_only_collected cfg tr" and "on_step o_step"
  shows "\<exists>loc' tr'. rollout_pass cfg space num_envs o_step n loc tr = (None, loc', tr')
     \<and> attacker_rollout_buffer tr' = attacker_rollout_buffer tr @ [n]
     \<and> defender_rollout_buffer tr' = defender_rollout_buffer tr
     \<and> attacker_only_collected cfg tr'
     \<and> attacker_values_bound loc' \<and> dones_bound loc'
     \<and> (defender_values_bound loc'
          \<longleftrightarrow> defender_values_bound loc
              \<or> (alternating_optimization cfg \<and> opponent_pool cfg
                  \<and> defender_opponent_is_policy o_step))"
  using assms
  by (auto simp: attacker_only_collected_def rollout_pass_def select_actions_def
      add_transition_def Let_def)

lemma attacker_only_loop:
  "attacker_only_collected cfg tr \<and> (\<forall>i. on_step (env i)) \<Longrightarrow>
     \<exists>loc' tr'. rollout_loop cfg space num_envs env k n loc tr = (None, loc', tr')
     \<and> attacker_rollout_buffer tr' = attacker_rollout_buffer tr @ [n..<nat k]
     \<and> defender_rollout_buffer tr' = defender_rollout_buffer tr
     \<and> (attacker_values_bound loc' \<longleftrightarrow> attacker_values_bound loc \<or> n < nat k)
     \<and> (dones_bound loc' \<longleftrightarrow> dones_bound loc \<or> n < nat k)
     \<and> (defender_values_bound loc'
          \<longleftrightarrow> defender_values_bound loc
              \<or> (alternating_optimization cfg \<and> opponent_pool cfg
                  \<and> (\<exists>i. n \<le> i \<and> i < nat k \<and> defender_opponent_is_policy (env i))))"
proof (induction cfg space num_envs env k n loc tr rule: rollout_loop.induct)
  case (1 cfg space num_envs env k n loc tr)
  from "1.prems" have c: "attacker_only_collected cfg tr" and all: "\<forall>i. on_step (env i)"
    by simp_all
  show ?case
  proof (cases "int n < k")
    case False
    then have "[n..<nat k] = []" by simp
    moreover have "\<not> n < nat k" using False by simp
    moreover have "\<not> (\<exists>i. n \<le> i \<and> i < nat k \<and> defender_opponent_is_policy (env i))"
      using False by auto
    ultimately show ?thesis using False
      by (auto simp del: rollout_loop.simps
          simp add: rollout_loop.simps [of cfg space num_envs env k n])
  next
    case True
    have os: "on_step (env n)" using all by simp
    from attacker_only_pass [OF c os, of space num_envs n loc]
    obtain loc1 tr1 where
      p: "rollout_pass cfg space num_envs (env n) n loc tr = (None, loc1, tr1)" and
      b: "attacker_rollout_buffer tr1 = attacker_rollout_buffer tr @ [n]"
         "defender_rollout_buffer tr1 = defender_rollout_buffer tr" and
      f: "attacker_only_collected cfg tr1" and
      l: "attacker_values_bound loc1" "dones_bound loc1"
         "defender_values_bound loc1
          \<longleftrightarrow> defender_values_bound loc
              \<or> (alternating_optimization cfg \<and> opponent_pool cfg
                  \<and> defender_opponent_is_policy (env n))"
      by blast
    have f': "attacker_only_collected cfg tr1 \<and> (\<forall>i. on_step (env i))" using f all by simp
    from "1.IH" [OF True p [symmetric] refl refl f']
    obtain loc' tr' where
      r: "rollout_loop cfg space num_envs env k (Suc n) loc1 tr1 = (None, loc', tr')" and
      rb: "attacker_rollout_buffer tr' = attacker_rollout_buffer tr1 @ [Suc n..<nat k]"
          "defender_rollout_buffer tr' = defender_rollout_buffer tr1" and
      rl: "attacker_values_bound loc' \<longleftrightarrow> attacker_values_bound loc1 \<or> Suc n < nat k"
          "dones_bound loc' \<longleftrightarrow> dones_bound loc1 \<or> Suc n < nat k"
          "defender_values_bound loc'
          \<longleftrightarrow> defender_values_bound loc1
              \<or> (alternating_optimization cfg \<and> opponent_pool cfg
                  \<and> (\<exists>i. Suc n \<le> i \<and> i < nat k \<and> defender_opponent_is_policy (env i)))"
      by blast
    have lt: "n < nat k" using True by simp
    then have upt: "[n..<nat k] = n # [Suc n..<nat k]" by (rule upt_conv_Cons)
    have ex: "(\<exists>i. n \<le> i \<and> i < nat k \<and> defender_opponent_is_policy (env i))
        \<longleftrightarrow> defender_opponent_is_policy (env n)
            \<or> (\<exists>i. Suc n \<le> i \<and> i < nat k \<and> defender_opponent_is_policy (env i))"
      using lt by (metis Suc_leI le_neq_implies_less Suc_leD order_refl)
    have e: "rollout_loop cfg space num_envs env k n loc tr = (None, loc', tr')"
      using True p r
      by (simp del: rollout_loop.simps add: rollout_loop.simps [of cfg space num_envs env k n])
    show ?thesis
      using e b rb l rl lt upt ex by auto
  qed
qed

text \<open>
  When only the attacker is collected and the callback never stops the run,
  \<open>collect_rollouts\<close> adds exactly the \<open>n_rollout_steps\<close> transitions to the attacker's
  buffer and none to the defender's. It returns True if at least one step was taken and,
  with the defender configured, a policy was the defender opponent at some step; otherwise
  the computation of the returns raises on an unbound local.
\<close>

theorem collect_rollouts_attacker_only:
  assumes "attacker_only_collected cfg tr" and "\<forall>i. on_step (env i)"
  shows "attacker_rollout_buffer (snd (collect_rollouts cfg space num_envs env k tr))
           = [0..<nat k]
     \<and> defender_rollout_buffer (snd (collect_rollouts cfg space num_envs env k tr))
           = (if defender cfg then [] else defender_rollout_buffer tr)
     \<and> fst (collect_rollouts cfg space num_envs env k tr)
           = (if 0 < k \<and> (defender cfg \<longrightarrow>
                            (\<exists>i < nat k. defender_opponent_is_policy (env i)))
              then Completed else Raised UnboundLocalError)"
proof -
  define tr2 where "tr2 = (if defender cfg
               then (if attacker cfg then tr\<lparr>attacker_rollout_buffer := []\<rparr> else tr)
                      \<lparr>defender_rollout_buffer := []\<rparr>
               else (if attacker cfg then tr\<lparr>attacker_rollout_buffer := []\<rparr> else tr))"
  define loc where "loc = \<lparr>attacker_values_bound = False, defender_values_bound = False,
                 dones_bound = False\<rparr>"
  have c2: "attacker_only_collected cfg tr2 \<and> (\<forall>i. on_step (env i))"
    using assms by (auto simp: tr2_def attacker_only_collected_def)
  have b2: "attacker_rollout_buffer tr2 = []"
    "defender_rollout_buffer tr2 = (if defender cfg then [] else defender_rollout_buffer tr)"
    using assms(1) by (auto simp: tr2_def attacker_only_collected_def)
  from attacker_only_loop [OF c2, of space num_envs k 0 loc]
  obtain loc' tr' where
    l: "rollout_loop cfg space num_envs env k 0 loc tr2 = (None, loc', tr')" and
    b: "attacker_rollout_buffer tr' = attacker_rollout_buffer tr2 @ [0..<nat k]"
       "defender_rollout_buffer tr' = defender_rollout_buffer tr2" and
    v: "attacker_values_bound loc' \<longleftrightarrow> 0 < nat k" "dones_bound loc' \<longleftrightarrow> 0 < nat k"
       "defender_values_bound loc'
          \<longleftrightarrow> (alternating_optimization cfg \<and> opponent_pool cfg
                  \<and> (\<exists>i. 0 \<le> i \<and> i < nat k \<and> defender_opponent_is_policy (env i)))"
    by (auto simp: loc_def)
  have c: "collect_rollouts cfg space num_envs env k tr
     = (if attacker cfg \<and> \<not> (attacker_values_bound loc' \<and> dones_bound loc') then
               (Raised UnboundLocalError, tr')
             else if defender cfg \<and> \<not> (defender_values_bound loc' \<and> dones_bound loc') then
               (Raised UnboundLocalError, tr')
             else (Completed, tr'))"
    unfolding collect_rollouts_def Let_def tr2_def [symmetric] loc_def [symmetric] l
    by (simp del: rollout_loop.simps add: tr2_def)
  have pooled: "defender cfg \<longrightarrow> alternating_optimization cfg \<and> opponent_pool cfg"
    using assms(1) by (auto simp: attacker_only_collected_def)
  have att: "attacker cfg" using assms(1) by (simp add: attacker_only_collected_def)
  show ?thesis
    unfolding c using b b2 v pooled att by auto
qed

theorem collect_rollouts_attacker_only_witness:
  "collect_rollouts agent_config_3 Discrete 1 env_policy_opponent 3
     (trainer_start\<lparr>train_defender := False\<rparr>)
   = (Completed, trainer_start\<lparr>train_defender := False, attacker_rollout_buffer := [0, 1, 2],
                               num_timesteps := 3\<rparr>)"
proof -
  have c: "attacker_only_collected agent_config_3 (trainer_start\<lparr>train_defender := False\<rparr>)"
    by (simp add: attacker_only_collected_def agent_config_3_def trainer_start_def)
  have o: "\<forall>i. on_step (env_policy_opponent i)" by (simp add: env_policy_opponent_def)
  have e: "collect_rollouts agent_config_3 Discrete 1 env_policy_opponent 3
     (trainer_start\<lparr>train_defender := False\<rparr>)
   = (Completed, trainer_start\<lparr>train_defender := False, attacker_rollout_buffer := [0, 1, 2],
                               num_timesteps := 3\<rparr>)"
    by code_simp
  from collect_rollouts_attacker_only [OF c o, of Discrete 1 3]
  have "attacker_rollout_buffer (snd (collect_rollouts agent_config_3 Discrete 1
          env_policy_opponent 3 (trainer_start\<lparr>train_defender := False\<rparr>))) = [0..<nat 3]"
    by blast
  then show ?thesis using e by simp
qed

theorem collect_rollouts_stats_ok_witness:
  "stats_ok (stats trainer_start)
   \<and> stats_ok (stats (snd (collect_rollouts agent_config_no_pool Discrete 1 env_quiet 3
                             trainer_start)))"
proof -
  have s: "stats_ok (stats trainer_start)" by (simp add: trainer_start_def stats_ok_initial)
  from collect_rollouts_stats_ok [OF s] s show ?thesis by blast
qed

end
